theory Spec2Isabelle
  imports Main "HOL-Library.AList"
begin

section \<open>Data model of \<open>useAuth.ts\<close>\<close>

text \<open>
  The module \<open>src/useAuth.ts\<close> keeps an OAuth2 password-grant session in module-level
  variables and exposes \<open>signIn\<close>, \<open>signOut\<close>, \<open>revoke\<close> and \<open>getUser\<close>; it installs a
  response interceptor on the shared HTTP client. The embedding below follows the current
  version of the file (the one with \<open>failedRequestsQueue\<close>), for one \<open>useAuth\<close> instance.

  Numbers are modelled as \<open>int\<close> (milliseconds and seconds are integral; the rounding of
  IEEE doubles beyond \<open>2^53\<close> is not modelled). Strings are \<open>string\<close>.

  The watcher on \<open>oAuth\<close> writes the default \<open>Authorization\<close> header and the
  \<open>localStorage\<close> entry; both are functions of \<open>oAuth\<close> alone and are left out.

  An \<open>async\<close> function is split at its \<open>await\<close> of a request: \<open>f_start\<close> runs up to the
  \<open>await\<close>, \<open>f_resume\<close> runs from the response on. Between the two, other events may run.
  What follows a response (the rest of the awaiting function and of the functions awaiting
  it) runs as promise reactions of one turn of the event loop, with no other event in
  between.

  One \<open>useAuth\<close> instance means one call of the exported function: every call installs
  one more error handler on the shared axios instance, over the same module-level flag and
  queue. Everything below is about a page that calls it once.
\<close>

text \<open>The interface \<open>OAuth\<close>.\<close>

record OAuth =
  accessToken :: string
  refreshToken :: string
  tokenType :: string
  expiresIn :: int
  expiresAt :: int

text \<open>The body of a token-endpoint response, with the field names the code reads
  (\<open>data.access_token\<close>, ...).\<close>

record token_response =
  access_token :: string
  refresh_token :: string
  token_type :: string
  expires_in :: int

text \<open>A response body: either a token response or any other JSON value (\<open>None\<close> is
  JSON \<open>null\<close>).\<close>

datatype body = TokenBody token_response | DataBody "string option"

text \<open>An axios request configuration. \<open>extra\<close> holds the keys spread into the
  configuration from \<open>extraParams\<close>.\<close>

record request_config =
  url :: "string option"
  http_method :: "string option"
  headers :: "(string \<times> string) list"
  params :: "(string \<times> string) list"
  base :: "string option"
  extra :: "(string \<times> string) list"

text \<open>Values a promise can reject with. \<open>Error m\<close> is \<open>new Error(m)\<close>;
  \<open>AxiosError status config\<close> is an instance of \<open>AxiosError\<close> with
  \<open>err.response?.status\<close> and \<open>err.config\<close> (\<open>None\<close> where the code reads \<open>undefined\<close>);
  \<open>Thrown\<close> is any other value thrown by foreign code.\<close>

datatype error =
    Error string
  | AxiosError "int option" "request_config option"
  | Thrown string

text \<open>
  What runs when the response of a request arrives: the rest of the \<open>async\<close> function that
  is suspended at its \<open>await\<close>.
  \<^item> \<open>SignInK\<close>: the rest of \<open>signIn\<close>;
  \<^item> \<open>RefreshK\<close>: the rest of a \<open>refreshToken()\<close> whose promise nobody awaits (called from
    the timer or from \<open>setRefreshTokenTimeout\<close>);
  \<^item> \<open>HandlerK err k\<close>: the rest of a \<open>refreshToken()\<close> awaited by the interceptor's error
    handler for \<open>err\<close>; the handler's own promise settles the request that continues
    with \<open>k\<close>;
  \<^item> \<open>GetUserK\<close>, \<open>RevokeK\<close>: the rest of \<open>getUser\<close> and \<open>revoke\<close>;
  \<^item> \<open>RequestK\<close>: a request of the application, or a replayed request.
\<close>

datatype cont =
    SignInK
  | RefreshK
  | HandlerK error cont
  | GetUserK
  | RevokeK
  | RequestK

text \<open>
  The module-level variables (\<open>oAuth\<close>, \<open>user\<close>, \<open>refreshTokenTimeout\<close>,
  \<open>isRefreshingToken\<close>, \<open>failedRequestsQueue\<close>) and the part of the runtime they act on:
  the timers set by \<open>setTimeout\<close> and not yet fired or cleared (handle and the clock
  reading at which the timer is due), the next timer handle, the requests handed to axios in order, the requests awaiting a
  response with their continuation, and the number of calls of \<open>onRefreshTokenFailed\<close>.

  A closure pushed on \<open>failedRequestsQueue\<close> is represented by the \<open>err.config\<close> it
  captures.
\<close>

record state =
  oAuth :: "OAuth option"
  user :: "string option"
  refreshTokenTimeout :: "nat option"
  isRefreshingToken :: bool
  failedRequestsQueue :: "request_config option list"
  timers :: "(nat \<times> int) list"
  nextHandle :: nat
  sent :: "request_config list"
  pending :: "(request_config \<times> cont) list"
  callbackCalls :: nat

text \<open>
  What application code can do to the session in one synchronous stretch: call the exposed
  functions (each runs up to its first \<open>await\<close>), send a request of its own through the
  shared axios instance, or assign the exposed ref \<open>user\<close>.
\<close>

datatype call =
    SignIn string string
  | SignOut
  | Revoke
  | GetUser
  | Request request_config
  | SetUser "string option"

text \<open>The interface \<open>Options\<close>. The endpoint for \<open>revoke\<close> is a string or a function of
  the access token; \<open>autoRefreshAccessToken\<close> is a boolean or an object with
  \<open>preFetchInMs\<close>. The callback \<open>onRefreshTokenFailed\<close> is application code: given the
  state it is called in, it makes a sequence of calls and then returns (\<open>False\<close>) or throws
  (\<open>True\<close>).\<close>

datatype revoke_endpoint = RevokeUrl string | RevokeFn "string \<Rightarrow> string"

datatype auto_refresh = AutoRefreshFlag bool | AutoRefreshObj int

record options =
  clientId :: string
  clientSecret :: string
  baseURL :: string
  userInfo :: string
  revokeEndpoint :: revoke_endpoint
  extraParams :: "(string \<times> string) list option"
  autoRefreshAccessToken :: "auto_refresh option"
  onRefreshTokenFailed :: "(state \<Rightarrow> call list \<times> bool) option"

section \<open>Operations\<close>

text \<open>\<open>isAuthenticated = computed(() => user.value !== null)\<close>\<close>

definition isAuthenticated :: "state \<Rightarrow> bool" where
  "isAuthenticated s = (user s \<noteq> None)"

text \<open>\<open>shouldRefreshToken\<close> and \<open>refreshTokenTimeoutInMs\<close> of the options.\<close>

definition shouldRefreshToken :: "options \<Rightarrow> bool" where
  "shouldRefreshToken opts =
     (case autoRefreshAccessToken opts of
        None \<Rightarrow> False
      | Some (AutoRefreshFlag b) \<Rightarrow> b
      | Some (AutoRefreshObj p) \<Rightarrow> True)"

definition refreshTokenTimeoutInMs :: "options \<Rightarrow> int" where
  "refreshTokenTimeoutInMs opts =
     (case autoRefreshAccessToken opts of
        Some (AutoRefreshObj p) \<Rightarrow> p
      | _ \<Rightarrow> 60 * 1000)"

text \<open>Handing a request to axios: it is sent, and its continuation waits.\<close>

definition axios :: "request_config \<Rightarrow> cont \<Rightarrow> state \<Rightarrow> state" where
  "axios c k s = s\<lparr>sent := sent s @ [c], pending := pending s @ [(c, k)]\<rparr>"

text \<open>The configuration of a token request: \<open>extraParams\<close> is spread first, then
  \<open>url\<close>, \<open>method\<close>, \<open>data\<close>, \<open>headers\<close> and \<open>baseURL\<close> override it.\<close>

definition tokenRequest :: "options \<Rightarrow> (string \<times> string) list \<Rightarrow> request_config" where
  "tokenRequest opts ps =
     \<lparr>url = Some ''/oauth/token'',
      http_method = Some ''POST'',
      headers = [(''Content-Type'', ''application/x-www-form-urlencoded'')],
      params = ps,
      base = Some (baseURL opts),
      extra = filter (\<lambda>(k, v). k \<notin> set [''url'', ''method'', ''data'', ''headers'', ''baseURL''])
                (case extraParams opts of None \<Rightarrow> [] | Some xs \<Rightarrow> xs)\<rparr>"

definition passwordGrant :: "options \<Rightarrow> string \<Rightarrow> string \<Rightarrow> request_config" where
  "passwordGrant opts email password =
     tokenRequest opts
       [(''password'', password), (''username'', email), (''grant_type'', ''password''),
        (''client_id'', clientId opts), (''client_secret'', clientSecret opts)]"

definition refreshGrant :: "options \<Rightarrow> OAuth \<Rightarrow> request_config" where
  "refreshGrant opts tok =
     tokenRequest opts
       [(''grant_type'', ''refresh_token''), (''client_id'', clientId opts),
        (''client_secret'', clientSecret opts), (''refresh_token'', refreshToken tok)]"

text \<open>The object literal assigned to \<open>oAuth.value\<close> in \<open>signIn\<close> and \<open>refreshToken\<close>;
  \<open>now\<close> is the value of \<open>Date.now()\<close> there. The spread of the old bundle is overridden
  in all five fields.\<close>

definition newOAuth :: "int \<Rightarrow> token_response \<Rightarrow> OAuth" where
  "newOAuth now d =
     \<lparr>accessToken = access_token d,
      refreshToken = refresh_token d,
      tokenType = token_type d,
      expiresIn = expires_in d,
      expiresAt = now + expires_in d * 1000\<rparr>"

text \<open>\<open>clearTimeout(h)\<close>: the timer with handle \<open>h\<close>, if still pending, is dropped.\<close>

definition clearTimeout :: "nat \<Rightarrow> state \<Rightarrow> state" where
  "clearTimeout h s = s\<lparr>timers := filter (\<lambda>(h', d). h' \<noteq> h) (timers s)\<rparr>"

text \<open>
  \<open>setTimeout(f, ms)\<close> of the browser: the delay is converted to a signed 32-bit integer
  (the value modulo \<open>2^32\<close>, read as two's complement), and a negative delay counts as 0.
  So a delay up to 2147483647 is kept, and one between 2147483648 and 4294967295 becomes 0.
\<close>

definition toInt32 :: "int \<Rightarrow> int" where
  "toInt32 n =
     (let r = n mod 4294967296 in if r \<ge> 2147483648 then r - 4294967296 else r)"

definition timerDelay :: "int \<Rightarrow> int" where
  "timerDelay ms = max 0 (toInt32 ms)"

text \<open>\<open>refreshToken\<close> up to its \<open>await\<close>: it rejects with \<open>Not logged in\<close> when there is
  no bundle, and sends the refresh grant otherwise. \<open>k\<close> is what waits for the response.\<close>

definition refreshToken_start :: "options \<Rightarrow> cont \<Rightarrow> state \<Rightarrow> (error + unit) \<times> state" where
  "refreshToken_start opts k s =
     (case oAuth s of
        None \<Rightarrow> (Inl (Error ''Not logged in''), s)
      | Some tok \<Rightarrow> (Inr (), axios (refreshGrant opts tok) k s))"

text \<open>\<open>setRefreshTokenTimeout\<close>; \<open>now\<close> is \<open>Date.now()\<close>. The variable
  \<open>refreshTokenTimeout\<close> keeps the old handle after \<open>clearTimeout\<close>. \<open>timeoutInMs\<close> is
  handed to \<open>setTimeout\<close> as it is, so the timer is due \<open>timerDelay timeoutInMs\<close> after
  \<open>now\<close>. The promise of the immediate \<open>refreshToken()\<close> is dropped.\<close>

definition setRefreshTokenTimeout :: "options \<Rightarrow> int \<Rightarrow> state \<Rightarrow> (error + unit) \<times> state" where
  "setRefreshTokenTimeout opts now s0 =
     (let s = (case refreshTokenTimeout s0 of None \<Rightarrow> s0 | Some h \<Rightarrow> clearTimeout h s0) in
      case oAuth s of
        None \<Rightarrow>
          (Inl (Error ''Attempted to call `setRefreshTokenTimeout()` when `oAuth` is null''), s)
      | Some tok \<Rightarrow>
          let timeoutInMs = expiresAt tok - now - refreshTokenTimeoutInMs opts in
          if timeoutInMs > 0 then
            (Inr (), s\<lparr>refreshTokenTimeout := Some (nextHandle s),
                       timers := timers s @ [(nextHandle s, now + timerDelay timeoutInMs)],
                       nextHandle := Suc (nextHandle s)\<rparr>)
          else (Inr (), snd (refreshToken_start opts RefreshK s)))"

text \<open>\<open>signIn\<close>: up to the \<open>await\<close>, and from the response on. \<open>now\<close> is \<open>Date.now()\<close> in
  the object literal, \<open>now'\<close> the one read by \<open>setRefreshTokenTimeout\<close>.\<close>

definition signIn_start :: "options \<Rightarrow> string \<Rightarrow> string \<Rightarrow> state \<Rightarrow> state" where
  "signIn_start opts email password s = axios (passwordGrant opts email password) SignInK s"

definition signIn_resume ::
  "options \<Rightarrow> int \<Rightarrow> int \<Rightarrow> error + token_response \<Rightarrow> state \<Rightarrow> (error + unit) \<times> state" where
  "signIn_resume opts now now' res s =
     (case res of
        Inl e \<Rightarrow> (Inl e, s)
      | Inr d \<Rightarrow>
          let s1 = s\<lparr>oAuth := Some (newOAuth now d)\<rparr> in
          if shouldRefreshToken opts then setRefreshTokenTimeout opts now' s1 else (Inr (), s1))"

text \<open>\<open>signOut\<close>\<close>

definition signOut :: "state \<Rightarrow> state" where
  "signOut s =
     (let s1 = s\<lparr>oAuth := None, user := None\<rparr> in
      case refreshTokenTimeout s1 of None \<Rightarrow> s1 | Some h \<Rightarrow> clearTimeout h s1)"

text \<open>\<open>revoke\<close> up to its \<open>await\<close> (\<open>axios.post(endpoint)\<close>); nothing follows the
  response.\<close>

definition revoke_start :: "options \<Rightarrow> state \<Rightarrow> (error + unit) \<times> state" where
  "revoke_start opts s =
     (case oAuth s of
        None \<Rightarrow> (Inl (Error ''Not logged in''), s)
      | Some tok \<Rightarrow>
          let endpoint = (case revokeEndpoint opts of
                            RevokeFn f \<Rightarrow> f (accessToken tok)
                          | RevokeUrl u \<Rightarrow> u) in
          (Inr (), axios \<lparr>url = Some endpoint, http_method = Some ''post'', headers = [],
                          params = [], base = None, extra = []\<rparr> RevokeK s))"

text \<open>\<open>getUser\<close>: up to the \<open>await\<close> (\<open>axios.get(endpoints.userInfo, { baseURL })\<close>), and
  from the response on.\<close>

definition getUser_start :: "options \<Rightarrow> state \<Rightarrow> (error + unit) \<times> state" where
  "getUser_start opts s =
     (case oAuth s of
        None \<Rightarrow> (Inl (Error ''Not logged in''), s)
      | Some tok \<Rightarrow>
          (Inr (), axios \<lparr>url = Some (userInfo opts), http_method = Some ''get'', headers = [],
                          params = [], base = Some (baseURL opts), extra = []\<rparr> GetUserK s))"

definition getUser_resume ::
  "error + string option \<Rightarrow> state \<Rightarrow> (error + string option) \<times> state" where
  "getUser_resume res s =
     (case res of
        Inl e \<Rightarrow> (Inl e, s)
      | Inr d \<Rightarrow> (Inr d, s\<lparr>user := d\<rparr>))"

text \<open>One call of application code, and a sequence of them.\<close>

fun perform :: "options \<Rightarrow> state \<Rightarrow> call \<Rightarrow> state" where
  "perform opts s (SignIn email password) = signIn_start opts email password s"
| "perform opts s SignOut = signOut s"
| "perform opts s Revoke = snd (revoke_start opts s)"
| "perform opts s GetUser = snd (getUser_start opts s)"
| "perform opts s (Request c) = axios c RequestK s"
| "perform opts s (SetUser u) = s\<lparr>user := u\<rparr>"

definition performAll :: "options \<Rightarrow> call list \<Rightarrow> state \<Rightarrow> state" where
  "performAll opts cs s = foldl (perform opts) s cs"

text \<open>The \<open>catch\<close> block of \<open>refreshToken\<close>: \<open>oAuth.value = null\<close>, then
  \<open>onRefreshTokenFailed?.()\<close>, whose calls run on the spot.\<close>

definition refreshTokenFailed :: "options \<Rightarrow> state \<Rightarrow> (error + unit) \<times> state" where
  "refreshTokenFailed opts s =
     (let s1 = s\<lparr>oAuth := None\<rparr> in
      case onRefreshTokenFailed opts of
        None \<Rightarrow> (Inr (), s1)
      | Some cb \<Rightarrow>
          let s2 = performAll opts (fst (cb s1)) (s1\<lparr>callbackCalls := Suc (callbackCalls s1)\<rparr>) in
          if snd (cb s1) then (Inl (Thrown ''onRefreshTokenFailed''), s2) else (Inr (), s2))"

text \<open>\<open>refreshToken\<close> from the response on: the \<open>try\<close> block after the \<open>await\<close>, and the
  \<open>catch\<close> block for a rejected request or a throwing \<open>setRefreshTokenTimeout\<close>.\<close>

definition refreshToken_resume ::
  "options \<Rightarrow> int \<Rightarrow> int \<Rightarrow> error + token_response \<Rightarrow> state \<Rightarrow> (error + unit) \<times> state" where
  "refreshToken_resume opts now now' res s =
     (case res of
        Inl e \<Rightarrow> refreshTokenFailed opts s
      | Inr d \<Rightarrow>
          let s1 = s\<lparr>oAuth := Some (newOAuth now d)\<rparr> in
          if shouldRefreshToken opts then
            (case setRefreshTokenTimeout opts now' s1 of
               (Inl e, s2) \<Rightarrow> refreshTokenFailed opts s2
             | (Inr u, s2) \<Rightarrow> (Inr (), s2))
          else (Inr (), s1))"

text \<open>The request a queued closure sends when called with \<open>accessToken\<close>:
  \<open>{ ...err.config, headers: { ...originalHeaders, Authorization: `Bearer ${accessToken}` } }\<close>
  with \<open>originalHeaders = err.config?.headers ?? {}\<close>.\<close>

definition emptyConfig :: request_config where
  "emptyConfig =
     \<lparr>url = None, http_method = None, headers = [], params = [], base = None, extra = []\<rparr>"

definition replay :: "request_config option \<Rightarrow> string \<Rightarrow> request_config" where
  "replay cfg tokenString =
     (let c = (case cfg of None \<Rightarrow> emptyConfig | Some c \<Rightarrow> c) in
      c\<lparr>headers := AList.update ''Authorization'' (''Bearer '' @ tokenString) (headers c)\<rparr>)"

text \<open>\<open>processQueue\<close>: every queued closure is called, in order; each call sends its
  request.\<close>

definition processQueue :: "string \<Rightarrow> state \<Rightarrow> state" where
  "processQueue tokenString s =
     foldl (\<lambda>s' cfg. axios (replay cfg tokenString) RequestK s') s (failedRequestsQueue s)"

text \<open>
  The interceptor's error handler up to its \<open>await refreshToken()\<close>. The result is
  \<open>Some r\<close> when the handler's promise settles with \<open>r\<close> without waiting for a response, and
  \<open>None\<close> when the handler is suspended at the \<open>await\<close>; \<open>k\<close> continues the request the
  handler settles.
\<close>

definition onRejected_start ::
  "options \<Rightarrow> cont \<Rightarrow> error \<Rightarrow> state \<Rightarrow> (error + body) option \<times> state" where
  "onRejected_start opts k err s =
     (case err of
        AxiosError status cfg \<Rightarrow>
          let u = (case cfg of None \<Rightarrow> None | Some c \<Rightarrow> url c) in
          if status \<noteq> Some 401 \<or> oAuth s = None \<or> u = Some ''/oauth/token'' then
            (Some (Inl err), s)
          else
            let s1 = s\<lparr>failedRequestsQueue := failedRequestsQueue s @ [cfg]\<rparr> in
            if \<not> isRefreshingToken s1 then
              let s2 = s1\<lparr>isRefreshingToken := True\<rparr> in
              (case refreshToken_start opts (HandlerK err k) s2 of
                 (Inl e, s3) \<Rightarrow>
                   (Some (Inl err), s3\<lparr>failedRequestsQueue := [], isRefreshingToken := False\<rparr>)
               | (Inr u, s3) \<Rightarrow> (None, s3))
            else (Some (Inl err), s1)
      | _ \<Rightarrow> (Some (Inl err), s))"

text \<open>
  The handler from the settling of \<open>refreshToken()\<close> on: \<open>r\<close> is the outcome of that promise.
  Reading \<open>oAuth.value.accessToken\<close> of a \<open>null\<close> bundle throws inside the \<open>try\<close>, and the
  empty \<open>catch\<close> swallows it.
\<close>

definition onRejected_resume :: "error \<Rightarrow> error + unit \<Rightarrow> state \<Rightarrow> (error + body) \<times> state" where
  "onRejected_resume err r s =
     (let s1 = (case r of
                  Inl e \<Rightarrow> s
                | Inr u \<Rightarrow>
                    (case oAuth s of
                       None \<Rightarrow> s
                     | Some tok \<Rightarrow> processQueue (accessToken tok) s)) in
      (Inl err, s1\<lparr>failedRequestsQueue := [], isRefreshingToken := False\<rparr>))"

text \<open>The awaited \<open>refreshToken()\<close> and the handler after it, from the response of the
  refresh grant on.\<close>

definition refreshThenResume ::
  "options \<Rightarrow> int \<Rightarrow> int \<Rightarrow> error \<Rightarrow> error + token_response \<Rightarrow> state \<Rightarrow> (error + body) \<times> state"
  where
  "refreshThenResume opts now now' err res s =
     (case refreshToken_resume opts now now' res s of
        (r, s1) \<Rightarrow> onRejected_resume err r s1)"

section \<open>The event loop\<close>

text \<open>
  A response is delivered to the continuation of its request. The token endpoint is taken
  to answer with a token response: a continuation given a body of the other shape leaves
  the state as it is.
\<close>

definition tokenResult :: "error + body \<Rightarrow> (error + token_response) option" where
  "tokenResult res =
     (case res of
        Inl e \<Rightarrow> Some (Inl e)
      | Inr (TokenBody d) \<Rightarrow> Some (Inr d)
      | Inr (DataBody d) \<Rightarrow> None)"

definition dataResult :: "error + body \<Rightarrow> (error + string option) option" where
  "dataResult res =
     (case res of
        Inl e \<Rightarrow> Some (Inl e)
      | Inr (DataBody d) \<Rightarrow> Some (Inr d)
      | Inr (TokenBody d) \<Rightarrow> None)"

primrec continue :: "cont \<Rightarrow> options \<Rightarrow> int \<Rightarrow> error + body \<Rightarrow> state \<Rightarrow> state" where
  "continue SignInK opts now res s =
     (case tokenResult res of
        None \<Rightarrow> s
      | Some r \<Rightarrow> snd (signIn_resume opts now now r s))"
| "continue RefreshK opts now res s =
     (case tokenResult res of
        None \<Rightarrow> s
      | Some r \<Rightarrow> snd (refreshToken_resume opts now now r s))"
| "continue (HandlerK err k) opts now res s =
     (case tokenResult res of
        None \<Rightarrow> s
      | Some r \<Rightarrow>
          (case refreshThenResume opts now now err r s of
             (res', s') \<Rightarrow> continue k opts now res' s'))"
| "continue GetUserK opts now res s =
     (case dataResult res of
        None \<Rightarrow> s
      | Some r \<Rightarrow> snd (getUser_resume r s))"
| "continue RevokeK opts now res s = s"
| "continue RequestK opts now res s = s"

text \<open>Whether a settled request has the shape its continuation reads: a token
  continuation reads a token response, \<open>getUser\<close> reads the user body, the others read
  nothing.\<close>

primrec accepts :: "cont \<Rightarrow> error + body \<Rightarrow> bool" where
  "accepts SignInK res = (tokenResult res \<noteq> None)"
| "accepts RefreshK res = (tokenResult res \<noteq> None)"
| "accepts (HandlerK err k) res = (tokenResult res \<noteq> None)"
| "accepts GetUserK res = (dataResult res \<noteq> None)"
| "accepts RevokeK res = True"
| "accepts RequestK res = True"

text \<open>
  The events of the loop: a call of application code, a timer that fires, and the settling
  of the \<open>i\<close>-th pending request (an event that names no pending request, or a body of the
  wrong shape, changes nothing). A timer fires only once it is due. A fulfilled response
  passes the interceptor unchanged (\<open>req => req\<close>); a rejected one goes through the error
  handler first. Every event carries the clock reading \<open>now\<close> of its turn. The loop does
  not constrain when a response arrives, how long after it is due a timer fires, nor which
  error a request is rejected with, so it reaches at least the states the program reaches.
\<close>

datatype event =
    Call call
  | TimerFires nat
  | Respond nat "error + body"

definition respond :: "options \<Rightarrow> int \<Rightarrow> nat \<Rightarrow> error + body \<Rightarrow> state \<Rightarrow> state" where
  "respond opts now i res s =
     (if i < length (pending s) \<and> accepts (snd (pending s ! i)) res then
        let k = snd (pending s ! i);
            s1 = s\<lparr>pending := take i (pending s) @ drop (Suc i) (pending s)\<rparr> in
        (case res of
           Inr b \<Rightarrow> continue k opts now (Inr b) s1
         | Inl e \<Rightarrow>
             (case onRejected_start opts k e s1 of
                (Some r, s2) \<Rightarrow> continue k opts now r s2
              | (None, s2) \<Rightarrow> s2))
      else s)"

fun step :: "options \<Rightarrow> state \<Rightarrow> int \<times> event \<Rightarrow> state" where
  "step opts s (now, Call c) = perform opts s c"
| "step opts s (now, TimerFires h) =
     (if h \<in> fst ` set (filter (\<lambda>(h', due). due \<le> now) (timers s))
      then snd (refreshToken_start opts RefreshK (clearTimeout h s))
      else s)"
| "step opts s (now, Respond i res) = respond opts now i res s"

definition run :: "options \<Rightarrow> (int \<times> event) list \<Rightarrow> state \<Rightarrow> state" where
  "run opts evs s = foldl (step opts) s evs"

text \<open>The state after the module is loaded and \<open>useAuth(options)\<close> has run: \<open>stored\<close> is
  the bundle read from local storage.\<close>

definition init :: "options \<Rightarrow> int \<Rightarrow> OAuth option \<Rightarrow> state" where
  "init opts now stored =
     (let s = \<lparr>oAuth = stored, user = None, refreshTokenTimeout = None,
               isRefreshingToken = False, failedRequestsQueue = [], timers = [],
               nextHandle = 0, sent = [], pending = [], callbackCalls = 0\<rparr> in
      if oAuth s \<noteq> None \<and> shouldRefreshToken opts then snd (setRefreshTokenTimeout opts now s)
      else s)"

section \<open>Observations on a state\<close>

text \<open>The refresh grants in flight: all of them, and those awaited by the interceptor's
  error handler.\<close>

primrec awaitedByHandler :: "cont \<Rightarrow> bool" where
  "awaitedByHandler SignInK = False"
| "awaitedByHandler RefreshK = False"
| "awaitedByHandler (HandlerK err k) = True"
| "awaitedByHandler GetUserK = False"
| "awaitedByHandler RevokeK = False"
| "awaitedByHandler RequestK = False"

definition refreshesInFlight :: "state \<Rightarrow> nat" where
  "refreshesInFlight s =
     length (filter (\<lambda>(c, k). k = RefreshK \<or> awaitedByHandler k) (pending s))"

definition handlerRefreshes :: "state \<Rightarrow> nat" where
  "handlerRefreshes s = length (filter (\<lambda>(c, k). awaitedByHandler k) (pending s))"

text \<open>The timers outstanding are at most the one whose handle \<open>refreshTokenTimeout\<close>
  holds.\<close>

definition timerInv :: "state \<Rightarrow> bool" where
  "timerInv s =
     (length (timers s) \<le> 1 \<and> list_all (\<lambda>(h, d). refreshTokenTimeout s = Some h) (timers s))"

text \<open>\<open>isRefreshingToken\<close> is set exactly while one refresh grant awaited by the error
  handler is pending, and the queue is empty while it is not set.\<close>

definition flagInv :: "state \<Rightarrow> bool" where
  "flagInv s =
     (handlerRefreshes s = (if isRefreshingToken s then 1 else 0)
      \<and> (isRefreshingToken s \<or> failedRequestsQueue s = []))"

text \<open>An event that settles a refresh grant awaited by the error handler, and a sequence
  of events none of which does.\<close>

fun answersHandler :: "state \<Rightarrow> int \<times> event \<Rightarrow> bool" where
  "answersHandler s (now, Respond i res) =
     (i < length (pending s) \<and> awaitedByHandler (snd (pending s ! i)))"
| "answersHandler s (now, Call c) = False"
| "answersHandler s (now, TimerFires h) = False"

fun unanswered :: "options \<Rightarrow> state \<Rightarrow> (int \<times> event) list \<Rightarrow> bool" where
  "unanswered opts s [] = True"
| "unanswered opts s (ev # evs) =
     (\<not> answersHandler s ev \<and> unanswered opts (step opts s ev) evs)"

section \<open>A concrete configuration and session\<close>

definition opts0 :: options where
  "opts0 =
     \<lparr>clientId = ''id'', clientSecret = ''secret'', baseURL = ''https://api.test'',
      userInfo = ''/users/me'', revokeEndpoint = RevokeUrl ''/oauth/revoke'',
      extraParams = None, autoRefreshAccessToken = Some (AutoRefreshFlag True),
      onRefreshTokenFailed = Some (\<lambda>s. ([], False))\<rparr>"

text \<open>The same configuration with \<open>onRefreshTokenFailed: () => signOut()\<close>.\<close>

definition optsSignOut :: options where
  "optsSignOut = opts0\<lparr>onRefreshTokenFailed := Some (\<lambda>s. ([SignOut], False))\<rparr>"

definition data0 :: token_response where
  "data0 =
     \<lparr>access_token = ''a1'', refresh_token = ''r1'', token_type = ''Bearer'',
      expires_in = 3600\<rparr>"

definition data1 :: token_response where
  "data1 =
     \<lparr>access_token = ''a2'', refresh_token = ''r2'', token_type = ''Bearer'',
      expires_in = 3600\<rparr>"

text \<open>A token that lives 30 days.\<close>

definition data30d :: token_response where
  "data30d =
     \<lparr>access_token = ''a30'', refresh_token = ''r30'', token_type = ''Bearer'',
      expires_in = 2592000\<rparr>"

definition bundle0 :: OAuth where
  "bundle0 = newOAuth 1000 data0"

definition get :: "string \<Rightarrow> request_config" where
  "get u =
     \<lparr>url = Some u, http_method = Some ''get'', headers = [(''Accept'', ''application/json'')],
      params = [], base = None, extra = []\<rparr>"

definition err401 :: "string \<Rightarrow> error" where
  "err401 u = AxiosError (Some 401) (Some (get u))"

text \<open>A fresh page load with nothing stored; a sign-in sent at time 0 and answered at
  time 1000 (the bundle expires at 3601000, the refresh timer is due at 3541000); then
  \<open>getUser\<close>, answered with the user \<open>alice\<close>.\<close>

definition fresh :: state where
  "fresh = init opts0 0 None"

definition justSignedIn :: state where
  "justSignedIn =
     run opts0
       [(0, Call (SignIn ''alice@test'' ''pw'')), (1000, Respond 0 (Inr (TokenBody data0)))]
       fresh"

definition signedIn :: state where
  "signedIn =
     run opts0
       [(0, Call (SignIn ''alice@test'' ''pw'')), (1000, Respond 0 (Inr (TokenBody data0))),
        (1500, Call GetUser), (2000, Respond 0 (Inr (DataBody (Some ''alice''))))]
       fresh"

text \<open>From \<open>signedIn\<close>: the timer fires when due, and the token endpoint rejects the
  refresh grant.\<close>

definition refreshRejected :: state where
  "refreshRejected =
     run opts0
       [(3541000, TimerFires 0),
        (3541500, Respond 0 (Inl (AxiosError (Some 400) (Some (refreshGrant opts0 bundle0)))))]
       signedIn"

text \<open>From \<open>signedIn\<close>: two requests of the application are answered 401 shortly before
  the timer is due, the first while no refresh is in flight; then the timer fires while the
  refresh started by the handler is still pending.\<close>

definition two401s :: state where
  "two401s =
     run opts0
       [(3540000, Call (Request (get ''/a''))), (3540100, Call (Request (get ''/b''))),
        (3540500, Respond 0 (Inl (err401 ''/a''))), (3540600, Respond 0 (Inl (err401 ''/b'')))]
       signedIn"

text \<open>From \<open>signedIn\<close>, written from the page load on: the two requests have been sent
  and are pending.\<close>

definition requested :: state where
  "requested =
     run opts0
       [(0, Call (SignIn ''alice@test'' ''pw'')), (1000, Respond 0 (Inr (TokenBody data0))),
        (1500, Call GetUser), (2000, Respond 0 (Inr (DataBody (Some ''alice'')))),
        (3540000, Call (Request (get ''/a''))), (3540100, Call (Request (get ''/b'')))]
       fresh"

definition timerDuringRefresh :: state where
  "timerDuringRefresh = step opts0 two401s (3541000, TimerFires 0)"

text \<open>A fresh page load; the sign-in is answered at time 1000 with the 30-day token.\<close>

definition longLived :: state where
  "longLived =
     run opts0
       [(0, Call (SignIn ''alice@test'' ''pw'')), (1000, Respond 0 (Inr (TokenBody data30d)))]
       fresh"

section \<open>What each operation leaves unchanged\<close>

lemma axios_fields [simp]:
  "oAuth (axios c k s) = oAuth s"
  "user (axios c k s) = user s"
  "refreshTokenTimeout (axios c k s) = refreshTokenTimeout s"
  "isRefreshingToken (axios c k s) = isRefreshingToken s"
  "failedRequestsQueue (axios c k s) = failedRequestsQueue s"
  "timers (axios c k s) = timers s"
  "nextHandle (axios c k s) = nextHandle s"
  "callbackCalls (axios c k s) = callbackCalls s"
  "sent (axios c k s) = sent s @ [c]"
  "pending (axios c k s) = pending s @ [(c, k)]"
  by (simp_all add: axios_def)

lemma processQueue_eq:
  "processQueue t s =
     s\<lparr>sent := sent s @ map (\<lambda>c. replay c t) (failedRequestsQueue s),
       pending := pending s @ map (\<lambda>c. (replay c t, RequestK)) (failedRequestsQueue s)\<rparr>"
proof -
  have "foldl (\<lambda>s' cfg. axios (replay cfg t) RequestK s') s q =
          s\<lparr>sent := sent s @ map (\<lambda>c. replay c t) q,
            pending := pending s @ map (\<lambda>c. (replay c t, RequestK)) q\<rparr>" for q
    by (induction q arbitrary: s) (simp_all add: axios_def)
  then show ?thesis by (simp add: processQueue_def)
qed

lemma handlerRefreshes_cong:
  "pending s' = pending s \<Longrightarrow> handlerRefreshes s' = handlerRefreshes s"
  by (simp add: handlerRefreshes_def)

lemma handlerRefreshes_axios [simp]:
  "handlerRefreshes (axios c k s) = handlerRefreshes s + (if awaitedByHandler k then 1 else 0)"
  by (simp add: handlerRefreshes_def)

lemma handlerRefreshes_processQueue [simp]:
  "handlerRefreshes (processQueue t s) = handlerRefreshes s"
  by (simp add: handlerRefreshes_def processQueue_eq filter_map o_def)

lemma handlerRefreshes_upd [simp]:
  "handlerRefreshes (s\<lparr>oAuth := a\<rparr>) = handlerRefreshes s"
  "handlerRefreshes (s\<lparr>user := b\<rparr>) = handlerRefreshes s"
  "handlerRefreshes (s\<lparr>refreshTokenTimeout := c\<rparr>) = handlerRefreshes s"
  "handlerRefreshes (s\<lparr>isRefreshingToken := d\<rparr>) = handlerRefreshes s"
  "handlerRefreshes (s\<lparr>failedRequestsQueue := e\<rparr>) = handlerRefreshes s"
  "handlerRefreshes (s\<lparr>timers := f\<rparr>) = handlerRefreshes s"
  "handlerRefreshes (s\<lparr>nextHandle := g\<rparr>) = handlerRefreshes s"
  "handlerRefreshes (s\<lparr>callbackCalls := h\<rparr>) = handlerRefreshes s"
  "handlerRefreshes (clearTimeout i s) = handlerRefreshes s"
  by (simp_all add: handlerRefreshes_def clearTimeout_def)

lemma timerInv_upd [simp]:
  "timerInv (s\<lparr>oAuth := a\<rparr>) = timerInv s"
  "timerInv (s\<lparr>user := b\<rparr>) = timerInv s"
  "timerInv (s\<lparr>isRefreshingToken := d\<rparr>) = timerInv s"
  "timerInv (s\<lparr>failedRequestsQueue := e\<rparr>) = timerInv s"
  "timerInv (s\<lparr>callbackCalls := h\<rparr>) = timerInv s"
  "timerInv (s\<lparr>pending := p\<rparr>) = timerInv s"
  "timerInv (s\<lparr>sent := q\<rparr>) = timerInv s"
  "timerInv (axios c k s) = timerInv s"
  "timerInv (processQueue t s) = timerInv s"
  by (simp_all add: timerInv_def processQueue_eq)

lemma refreshToken_start_fields [simp]:
  "oAuth (snd (refreshToken_start opts k s)) = oAuth s"
  "user (snd (refreshToken_start opts k s)) = user s"
  "isRefreshingToken (snd (refreshToken_start opts k s)) = isRefreshingToken s"
  "failedRequestsQueue (snd (refreshToken_start opts k s)) = failedRequestsQueue s"
  "timers (snd (refreshToken_start opts k s)) = timers s"
  "refreshTokenTimeout (snd (refreshToken_start opts k s)) = refreshTokenTimeout s"
  "callbackCalls (snd (refreshToken_start opts k s)) = callbackCalls s"
  "timerInv (snd (refreshToken_start opts k s)) = timerInv s"
  "handlerRefreshes (snd (refreshToken_start opts k s)) =
     handlerRefreshes s + (if awaitedByHandler k \<and> oAuth s \<noteq> None then 1 else 0)"
  by (simp_all add: refreshToken_start_def split: option.splits)

lemma setRefreshTokenTimeout_ok:
  "oAuth s \<noteq> None \<Longrightarrow> fst (setRefreshTokenTimeout opts now s) = Inr ()"
  by (auto simp: setRefreshTokenTimeout_def clearTimeout_def Let_def split: option.splits)

lemma setRefreshTokenTimeout_fields [simp]:
  "oAuth (snd (setRefreshTokenTimeout opts now s)) = oAuth s"
  "user (snd (setRefreshTokenTimeout opts now s)) = user s"
  "isRefreshingToken (snd (setRefreshTokenTimeout opts now s)) = isRefreshingToken s"
  "failedRequestsQueue (snd (setRefreshTokenTimeout opts now s)) = failedRequestsQueue s"
  "callbackCalls (snd (setRefreshTokenTimeout opts now s)) = callbackCalls s"
  "handlerRefreshes (snd (setRefreshTokenTimeout opts now s)) = handlerRefreshes s"
  by (auto simp: setRefreshTokenTimeout_def clearTimeout_def Let_def split: option.splits)

lemma signOut_fields [simp]:
  "oAuth (signOut s) = None"
  "user (signOut s) = None"
  "isRefreshingToken (signOut s) = isRefreshingToken s"
  "failedRequestsQueue (signOut s) = failedRequestsQueue s"
  "callbackCalls (signOut s) = callbackCalls s"
  "sent (signOut s) = sent s"
  "pending (signOut s) = pending s"
  "handlerRefreshes (signOut s) = handlerRefreshes s"
  by (simp_all add: signOut_def clearTimeout_def Let_def handlerRefreshes_def
      split: option.splits)

lemma perform_fields [simp]:
  "isRefreshingToken (perform opts s c) = isRefreshingToken s"
  "failedRequestsQueue (perform opts s c) = failedRequestsQueue s"
  "callbackCalls (perform opts s c) = callbackCalls s"
  "handlerRefreshes (perform opts s c) = handlerRefreshes s"
  by (cases c; simp add: signIn_start_def revoke_start_def getUser_start_def
        split: option.splits)+

lemma perform_no_bundle:
  "oAuth s = None \<Longrightarrow> oAuth (perform opts s c) = None"
  by (cases c) (simp_all add: signIn_start_def revoke_start_def getUser_start_def)

lemma performAll_fields [simp]:
  "isRefreshingToken (performAll opts cs s) = isRefreshingToken s"
  "failedRequestsQueue (performAll opts cs s) = failedRequestsQueue s"
  "callbackCalls (performAll opts cs s) = callbackCalls s"
  "handlerRefreshes (performAll opts cs s) = handlerRefreshes s"
  unfolding performAll_def by (induction cs arbitrary: s; simp)+

lemma performAll_no_bundle:
  "oAuth s = None \<Longrightarrow> oAuth (performAll opts cs s) = None"
  unfolding performAll_def by (induction cs arbitrary: s) (simp_all add: perform_no_bundle)

lemma refreshTokenFailed_eq:
  "snd (refreshTokenFailed opts s) =
     (case onRefreshTokenFailed opts of
        None \<Rightarrow> s\<lparr>oAuth := None\<rparr>
      | Some cb \<Rightarrow>
          performAll opts (fst (cb (s\<lparr>oAuth := None\<rparr>)))
            (s\<lparr>oAuth := None, callbackCalls := Suc (callbackCalls s)\<rparr>))"
  by (simp add: refreshTokenFailed_def Let_def split: option.splits)

lemma refreshTokenFailed_fields [simp]:
  "oAuth (snd (refreshTokenFailed opts s)) = None"
  "isRefreshingToken (snd (refreshTokenFailed opts s)) = isRefreshingToken s"
  "failedRequestsQueue (snd (refreshTokenFailed opts s)) = failedRequestsQueue s"
  "handlerRefreshes (snd (refreshTokenFailed opts s)) = handlerRefreshes s"
  "callbackCalls (snd (refreshTokenFailed opts s)) =
     callbackCalls s + (case onRefreshTokenFailed opts of None \<Rightarrow> 0 | Some cb \<Rightarrow> 1)"
  by (simp_all add: refreshTokenFailed_eq performAll_no_bundle split: option.splits)

section \<open>The timer invariant\<close>

text \<open>Every operation keeps \<open>timerInv\<close>, so it holds in every state the event loop
  reaches.\<close>

lemma timerInv_cleared:
  "timerInv s \<Longrightarrow> refreshTokenTimeout s = Some h \<Longrightarrow> filter (\<lambda>(h', d). h' \<noteq> h) (timers s) = []"
  by (cases "timers s") (auto simp: timerInv_def)

lemma timerInv_none:
  "timerInv s \<Longrightarrow> refreshTokenTimeout s = None \<Longrightarrow> timers s = []"
  by (cases "timers s") (auto simp: timerInv_def)

lemma timerInv_clearTimeout: "timerInv s \<Longrightarrow> timerInv (clearTimeout h s)"
  by (cases "timers s") (auto simp: timerInv_def clearTimeout_def)

lemma timerInv_signOut: "timerInv s \<Longrightarrow> timerInv (signOut s)"
  by (auto simp: signOut_def Let_def timerInv_clearTimeout split: option.splits)

lemma timerInv_perform: "timerInv s \<Longrightarrow> timerInv (perform opts s c)"
  by (cases c)
     (auto simp: timerInv_signOut signIn_start_def revoke_start_def getUser_start_def
        split: option.splits)

lemma timerInv_performAll: "timerInv s \<Longrightarrow> timerInv (performAll opts cs s)"
  unfolding performAll_def by (induction cs arbitrary: s) (simp_all add: timerInv_perform)

lemma timerInv_refreshTokenFailed:
  "timerInv s \<Longrightarrow> timerInv (snd (refreshTokenFailed opts s))"
  by (simp add: refreshTokenFailed_eq timerInv_performAll split: option.splits)

lemma timerInv_setRefreshTokenTimeout:
  assumes "timerInv s"
  shows "timerInv (snd (setRefreshTokenTimeout opts now s))"
proof -
  let ?s = "case refreshTokenTimeout s of None \<Rightarrow> s | Some h \<Rightarrow> clearTimeout h s"
  have t: "timers ?s = []"
    using assms timerInv_cleared [of s] timerInv_none [of s]
    by (auto simp: clearTimeout_def split: option.splits)
  show ?thesis
    using t unfolding setRefreshTokenTimeout_def Let_def
    by (auto simp: timerInv_def split: option.splits)
qed

lemma timerInv_signIn_resume:
  "timerInv s \<Longrightarrow> timerInv (snd (signIn_resume opts now now' res s))"
  by (cases res) (simp_all add: signIn_resume_def Let_def timerInv_setRefreshTokenTimeout)

lemma timerInv_refreshToken_resume:
  "timerInv s \<Longrightarrow> timerInv (snd (refreshToken_resume opts now now' res s))"
proof (cases res)
  case (Inl e)
  assume "timerInv s"
  with Inl show ?thesis by (simp add: refreshToken_resume_def timerInv_refreshTokenFailed)
next
  case (Inr d)
  assume inv: "timerInv s"
  let ?s1 = "s\<lparr>oAuth := Some (newOAuth now d)\<rparr>"
  have "timerInv (snd (setRefreshTokenTimeout opts now' ?s1))"
    using inv by (simp add: timerInv_setRefreshTokenTimeout)
  with Inr inv show ?thesis
    by (cases "setRefreshTokenTimeout opts now' ?s1")
       (auto simp: refreshToken_resume_def Let_def timerInv_refreshTokenFailed
          split: sum.splits)
qed

lemma timerInv_onRejected_resume:
  "timerInv s \<Longrightarrow> timerInv (snd (onRejected_resume err r s))"
  by (simp add: onRejected_resume_def Let_def split: sum.splits option.splits)

lemma timerInv_refreshThenResume:
  "timerInv s \<Longrightarrow> timerInv (snd (refreshThenResume opts now now' err res s))"
  using timerInv_refreshToken_resume [of s opts now now' res]
  by (cases "refreshToken_resume opts now now' res s")
     (simp add: refreshThenResume_def timerInv_onRejected_resume)

lemma timerInv_onRejected_start:
  "timerInv s \<Longrightarrow> timerInv (snd (onRejected_start opts k err s))"
proof (cases err)
  case (AxiosError status cfg)
  assume inv: "timerInv s"
  let ?s2 = "s\<lparr>failedRequestsQueue := failedRequestsQueue s @ [cfg], isRefreshingToken := True\<rparr>"
  have "timerInv (snd (refreshToken_start opts (HandlerK err k) ?s2))"
    using inv by simp
  with AxiosError inv show ?thesis
    by (cases "refreshToken_start opts (HandlerK (AxiosError status cfg) k) ?s2")
       (auto simp: onRejected_start_def Let_def split: sum.splits)
qed (simp_all add: onRejected_start_def)

lemma timerInv_continue:
  "timerInv s \<Longrightarrow> timerInv (continue k opts now res s)"
proof (induction k arbitrary: res s)
  case (HandlerK err k)
  show ?case
  proof (cases "tokenResult res")
    case None
    with HandlerK.prems show ?thesis by simp
  next
    case (Some r)
    obtain res' s' where eq: "refreshThenResume opts now now err r s = (res', s')"
      by (cases "refreshThenResume opts now now err r s")
    have "timerInv s'"
      using timerInv_refreshThenResume [OF HandlerK.prems, of opts now now err r] eq by simp
    then have "timerInv (continue k opts now res' s')" by (rule HandlerK.IH)
    with Some eq show ?thesis by simp
  qed
qed (auto simp: timerInv_signIn_resume timerInv_refreshToken_resume getUser_resume_def
       split: option.splits sum.splits)

lemma timerInv_respond:
  assumes "timerInv s"
  shows "timerInv (respond opts now i res s)"
proof (cases "i < length (pending s) \<and> accepts (snd (pending s ! i)) res")
  case False
  with assms show ?thesis by (auto simp: respond_def)
next
  case True
  let ?k = "snd (pending s ! i)"
  let ?s1 = "s\<lparr>pending := take i (pending s) @ drop (Suc i) (pending s)\<rparr>"
  have inv1: "timerInv ?s1" using assms by simp
  show ?thesis
  proof (cases res)
    case (Inr b)
    with True inv1 show ?thesis
      by (simp add: respond_def Let_def timerInv_continue)
  next
    case (Inl e)
    obtain r s2 where eq: "onRejected_start opts ?k e ?s1 = (r, s2)"
      by (cases "onRejected_start opts ?k e ?s1")
    have inv2: "timerInv s2"
      using timerInv_onRejected_start [OF inv1, of opts ?k e] eq by simp
    with Inl True eq show ?thesis
      by (cases r) (simp_all add: respond_def Let_def timerInv_continue)
  qed
qed

lemma timerInv_step: "timerInv s \<Longrightarrow> timerInv (step opts s ev)"
proof (cases ev)
  case (Pair now e)
  assume inv: "timerInv s"
  show ?thesis
  proof (cases e)
    case (Respond i res)
    with Pair inv show ?thesis by (simp add: timerInv_respond)
  next
    case (TimerFires h)
    with Pair inv show ?thesis by (simp add: timerInv_clearTimeout)
  next
    case (Call c)
    with Pair inv show ?thesis by (simp add: timerInv_perform)
  qed
qed

lemma timerInv_foldl: "timerInv s \<Longrightarrow> timerInv (foldl (step opts) s evs)"
  by (induction evs arbitrary: s) (simp_all add: timerInv_step)

lemma timerInv_init: "timerInv (init opts now stored)"
proof -
  let ?s = "\<lparr>oAuth = stored, user = None, refreshTokenTimeout = None,
               isRefreshingToken = False, failedRequestsQueue = [], timers = [],
               nextHandle = 0, sent = [], pending = [], callbackCalls = 0\<rparr>"
  have "timerInv ?s" by (simp add: timerInv_def)
  then show ?thesis
    by (simp add: init_def Let_def timerInv_setRefreshTokenTimeout)
qed

lemma timerInv_run: "timerInv (run opts evs (init opts now stored))"
  by (simp add: run_def timerInv_foldl timerInv_init)


section \<open>The in-flight flag\<close>

text \<open>Every operation keeps \<open>flagInv\<close>: the flag is set exactly while the refresh grant
  awaited by the error handler is pending.\<close>

lemma clearTimeout_fields [simp]:
  "oAuth (clearTimeout h s) = oAuth s"
  "user (clearTimeout h s) = user s"
  "refreshTokenTimeout (clearTimeout h s) = refreshTokenTimeout s"
  "isRefreshingToken (clearTimeout h s) = isRefreshingToken s"
  "failedRequestsQueue (clearTimeout h s) = failedRequestsQueue s"
  "nextHandle (clearTimeout h s) = nextHandle s"
  "callbackCalls (clearTimeout h s) = callbackCalls s"
  "sent (clearTimeout h s) = sent s"
  "pending (clearTimeout h s) = pending s"
  by (simp_all add: clearTimeout_def)

lemma getUser_resume_fields [simp]:
  "oAuth (snd (getUser_resume res s)) = oAuth s"
  "isRefreshingToken (snd (getUser_resume res s)) = isRefreshingToken s"
  "failedRequestsQueue (snd (getUser_resume res s)) = failedRequestsQueue s"
  "handlerRefreshes (snd (getUser_resume res s)) = handlerRefreshes s"
  "timerInv (snd (getUser_resume res s)) = timerInv s"
  by (cases res; simp add: getUser_resume_def)+

lemma signIn_resume_flag [simp]:
  "isRefreshingToken (snd (signIn_resume opts now now' res s)) = isRefreshingToken s"
  "failedRequestsQueue (snd (signIn_resume opts now now' res s)) = failedRequestsQueue s"
  "handlerRefreshes (snd (signIn_resume opts now now' res s)) = handlerRefreshes s"
  by (cases res; simp add: signIn_resume_def Let_def)+

lemma refreshToken_resume_flag [simp]:
  "isRefreshingToken (snd (refreshToken_resume opts now now' res s)) = isRefreshingToken s"
  "failedRequestsQueue (snd (refreshToken_resume opts now now' res s)) = failedRequestsQueue s"
  "handlerRefreshes (snd (refreshToken_resume opts now now' res s)) = handlerRefreshes s"
proof -
  have *: "isRefreshingToken (snd (refreshToken_resume opts now now' res s)) = isRefreshingToken s
     \<and> failedRequestsQueue (snd (refreshToken_resume opts now now' res s)) = failedRequestsQueue s
     \<and> handlerRefreshes (snd (refreshToken_resume opts now now' res s)) = handlerRefreshes s"
  proof (cases res)
    case (Inl e)
    then show ?thesis by (simp add: refreshToken_resume_def)
  next
    case (Inr d)
    let ?s1 = "s\<lparr>oAuth := Some (newOAuth now d)\<rparr>"
    obtain r s2 where eq: "setRefreshTokenTimeout opts now' ?s1 = (r, s2)"
      by (cases "setRefreshTokenTimeout opts now' ?s1")
    have "isRefreshingToken s2 = isRefreshingToken s"
      "failedRequestsQueue s2 = failedRequestsQueue s"
      "handlerRefreshes s2 = handlerRefreshes s"
      using setRefreshTokenTimeout_fields(3,4,6) [of opts now' ?s1] eq by simp_all
    with Inr eq show ?thesis
      by (cases r) (simp_all add: refreshToken_resume_def Let_def)
  qed
  show "isRefreshingToken (snd (refreshToken_resume opts now now' res s)) = isRefreshingToken s"
    "failedRequestsQueue (snd (refreshToken_resume opts now now' res s)) = failedRequestsQueue s"
    "handlerRefreshes (snd (refreshToken_resume opts now now' res s)) = handlerRefreshes s"
    using * by simp_all
qed

lemma onRejected_resume_flag [simp]:
  "isRefreshingToken (snd (onRejected_resume err r s)) = False"
  "failedRequestsQueue (snd (onRejected_resume err r s)) = []"
  "handlerRefreshes (snd (onRejected_resume err r s)) = handlerRefreshes s"
  by (simp_all add: onRejected_resume_def Let_def split: sum.splits option.splits)

lemma refreshThenResume_flag [simp]:
  "isRefreshingToken (snd (refreshThenResume opts now now' err res s)) = False"
  "failedRequestsQueue (snd (refreshThenResume opts now now' err res s)) = []"
  "handlerRefreshes (snd (refreshThenResume opts now now' err res s)) = handlerRefreshes s"
  using refreshToken_resume_flag(3) [of opts now now' res s]
  by (cases "refreshToken_resume opts now now' res s"; simp add: refreshThenResume_def)+

lemma continue_flag:
  "handlerRefreshes (continue k opts now res s) = handlerRefreshes s
   \<and> isRefreshingToken (continue k opts now res s) =
       (isRefreshingToken s \<and> \<not> (awaitedByHandler k \<and> tokenResult res \<noteq> None))
   \<and> failedRequestsQueue (continue k opts now res s) =
       (if awaitedByHandler k \<and> tokenResult res \<noteq> None then [] else failedRequestsQueue s)"
proof (induction k arbitrary: res s)
  case (HandlerK err k)
  show ?case
  proof (cases "tokenResult res")
    case None
    then show ?thesis by simp
  next
    case (Some r)
    obtain res' s' where eq: "refreshThenResume opts now now err r s = (res', s')"
      by (cases "refreshThenResume opts now now err r s")
    have s': "isRefreshingToken s' = False" "failedRequestsQueue s' = []"
      "handlerRefreshes s' = handlerRefreshes s"
      using refreshThenResume_flag [of opts now now err r s] eq by simp_all
    show ?thesis
      using HandlerK.IH [of res' s'] Some eq s' by simp
  qed
qed (auto split: option.splits)

lemma handlerRefreshes_remove:
  assumes "i < length (pending s)"
  shows "handlerRefreshes s =
           handlerRefreshes (s\<lparr>pending := take i (pending s) @ drop (Suc i) (pending s)\<rparr>)
           + (if awaitedByHandler (snd (pending s ! i)) then 1 else 0)"
proof -
  have "pending s = take i (pending s) @ pending s ! i # drop (Suc i) (pending s)"
    using assms by (rule id_take_nth_drop)
  then have "filter (\<lambda>(c, k). awaitedByHandler k) (pending s) =
      filter (\<lambda>(c, k). awaitedByHandler k) (take i (pending s) @ pending s ! i # drop (Suc i) (pending s))"
    by simp
  then show ?thesis
    by (cases "pending s ! i") (simp add: handlerRefreshes_def)
qed

lemma onRejected_start_busy:
  assumes "isRefreshingToken s"
  shows "fst (onRejected_start opts k e s) = Some (Inl e)
    \<and> isRefreshingToken (snd (onRejected_start opts k e s))
    \<and> handlerRefreshes (snd (onRejected_start opts k e s)) = handlerRefreshes s"
  using assms by (cases e) (auto simp: onRejected_start_def Let_def)

lemma onRejected_start_idle:
  assumes "\<not> isRefreshingToken s" "failedRequestsQueue s = []"
  shows "(case fst (onRejected_start opts k e s) of
            None \<Rightarrow> isRefreshingToken (snd (onRejected_start opts k e s))
                   \<and> handlerRefreshes (snd (onRejected_start opts k e s)) = handlerRefreshes s + 1
          | Some r \<Rightarrow> \<not> isRefreshingToken (snd (onRejected_start opts k e s))
                   \<and> handlerRefreshes (snd (onRejected_start opts k e s)) = handlerRefreshes s
                   \<and> failedRequestsQueue (snd (onRejected_start opts k e s)) = [])"
  using assms
  by (cases e) (auto simp: onRejected_start_def Let_def refreshToken_start_def split: option.splits)

lemma flagInv_respond:
  assumes inv: "flagInv s"
  shows "flagInv (respond opts now i res s)"
proof (cases "i < length (pending s) \<and> accepts (snd (pending s ! i)) res")
  case False
  with inv show ?thesis by (auto simp: respond_def)
next
  case True
  let ?k = "snd (pending s ! i)"
  let ?s1 = "s\<lparr>pending := take i (pending s) @ drop (Suc i) (pending s)\<rparr>"
  from True have i: "i < length (pending s)" and acc: "accepts ?k res" by simp_all
  have cnt: "handlerRefreshes s = handlerRefreshes ?s1 + (if awaitedByHandler ?k then 1 else 0)"
    using i by (rule handlerRefreshes_remove)
  have flag1: "isRefreshingToken ?s1 = isRefreshingToken s"
    and queue1: "failedRequestsQueue ?s1 = failedRequestsQueue s" by simp_all
  have tok: "awaitedByHandler ?k \<Longrightarrow> tokenResult res \<noteq> None"
    using acc by (cases ?k) simp_all
  show ?thesis
  proof (cases res)
    case (Inr b)
    have eq: "respond opts now i res s = continue ?k opts now res ?s1"
      using True Inr by (simp add: respond_def Let_def)
    show ?thesis
      using continue_flag [of ?k opts now res ?s1] inv cnt tok
      unfolding eq flagInv_def by (auto split: if_splits)
  next
    case (Inl e)
    obtain r s2 where st: "onRejected_start opts ?k e ?s1 = (r, s2)"
      by (cases "onRejected_start opts ?k e ?s1")
    show ?thesis
    proof (cases "isRefreshingToken s")
      case True
      have b: "r = Some (Inl e)" "isRefreshingToken s2" "handlerRefreshes s2 = handlerRefreshes ?s1"
        using onRejected_start_busy [of ?s1 opts ?k e] True st by simp_all
      have eq: "respond opts now i res s = continue ?k opts now (Inl e) s2"
        using \<open>i < length (pending s) \<and> accepts ?k res\<close> Inl st b by (simp add: respond_def Let_def)
      show ?thesis
        using continue_flag [of ?k opts now "Inl e" s2] inv cnt b True
        unfolding eq flagInv_def by (auto simp: tokenResult_def split: if_splits)
    next
      case False
      then have q: "failedRequestsQueue ?s1 = []" and h: "\<not> awaitedByHandler ?k"
        using inv cnt by (auto simp: flagInv_def split: if_splits)
      have idle: "(case r of
            None \<Rightarrow> isRefreshingToken s2 \<and> handlerRefreshes s2 = handlerRefreshes ?s1 + 1
          | Some r' \<Rightarrow> \<not> isRefreshingToken s2 \<and> handlerRefreshes s2 = handlerRefreshes ?s1
                   \<and> failedRequestsQueue s2 = [])"
        using onRejected_start_idle [of ?s1 opts ?k e] False q st
        by (cases r) simp_all
      show ?thesis
      proof (cases r)
        case None
        have eq: "respond opts now i res s = s2"
          using \<open>i < length (pending s) \<and> accepts ?k res\<close> Inl st None by (simp add: respond_def Let_def)
        show ?thesis using idle None inv cnt h False unfolding eq flagInv_def by simp
      next
        case (Some r')
        have eq: "respond opts now i res s = continue ?k opts now r' s2"
          using \<open>i < length (pending s) \<and> accepts ?k res\<close> Inl st Some by (simp add: respond_def Let_def)
        show ?thesis
          using continue_flag [of ?k opts now r' s2] idle Some inv cnt h False
          unfolding eq flagInv_def by simp
      qed
    qed
  qed
qed

lemma flagInv_step: "flagInv s \<Longrightarrow> flagInv (step opts s ev)"
proof (cases ev)
  case (Pair now e)
  assume inv: "flagInv s"
  show ?thesis
  proof (cases e)
    case (Respond i res)
    with Pair inv show ?thesis by (simp add: flagInv_respond)
  next
    case (TimerFires h)
    with Pair inv show ?thesis by (auto simp: flagInv_def)
  next
    case (Call c)
    with Pair inv show ?thesis by (auto simp: flagInv_def)
  qed
qed

lemma flagInv_foldl: "flagInv s \<Longrightarrow> flagInv (foldl (step opts) s evs)"
  by (induction evs arbitrary: s) (simp_all add: flagInv_step)

lemma flagInv_init: "flagInv (init opts now stored)"
  by (simp add: init_def Let_def flagInv_def) (simp add: handlerRefreshes_def)

lemma flagInv_run: "flagInv (run opts evs (init opts now stored))"
  by (simp add: run_def flagInv_foldl flagInv_init)

section \<open>Results of the operations\<close>

lemma signIn_resume_success:
  "fst (signIn_resume opts now now' (Inr d) s) = Inr ()"
  "oAuth (snd (signIn_resume opts now now' (Inr d) s)) = Some (newOAuth now d)"
  "user (snd (signIn_resume opts now now' (Inr d) s)) = user s"
  by (simp_all add: signIn_resume_def Let_def setRefreshTokenTimeout_ok)

lemma refreshToken_resume_success:
  "fst (refreshToken_resume opts now now' (Inr d) s) = Inr ()
   \<and> oAuth (snd (refreshToken_resume opts now now' (Inr d) s)) = Some (newOAuth now d)
   \<and> user (snd (refreshToken_resume opts now now' (Inr d) s)) = user s"
proof -
  let ?s1 = "s\<lparr>oAuth := Some (newOAuth now d)\<rparr>"
  obtain r s2 where eq: "setRefreshTokenTimeout opts now' ?s1 = (r, s2)"
    by (cases "setRefreshTokenTimeout opts now' ?s1")
  have r: "r = Inr ()"
    using setRefreshTokenTimeout_ok [of ?s1 opts now'] eq by simp
  have f: "oAuth s2 = Some (newOAuth now d)" "user s2 = user s"
    using setRefreshTokenTimeout_fields(1,2) [of opts now' ?s1] eq by simp_all
  show ?thesis
    using eq r f by (simp add: refreshToken_resume_def Let_def)
qed

lemma refreshToken_resume_failure:
  "snd (refreshToken_resume opts now now' (Inl e) s) =
     (case onRefreshTokenFailed opts of
        None \<Rightarrow> s\<lparr>oAuth := None\<rparr>
      | Some cb \<Rightarrow>
          performAll opts (fst (cb (s\<lparr>oAuth := None\<rparr>)))
            (s\<lparr>oAuth := None, callbackCalls := Suc (callbackCalls s)\<rparr>))"
  by (simp add: refreshToken_resume_def refreshTokenFailed_eq)

lemma refreshToken_resume_failure_no_bundle:
  "oAuth (snd (refreshToken_resume opts now now' (Inl e) s)) = None"
  by (simp add: refreshToken_resume_def)

lemma toInt32_in_range: "0 \<le> n \<Longrightarrow> n \<le> 2147483647 \<Longrightarrow> toInt32 n = n"
  by (simp add: toInt32_def Let_def)

lemma timerDelay_in_range: "0 \<le> n \<Longrightarrow> n \<le> 2147483647 \<Longrightarrow> timerDelay n = n"
  by (simp add: timerDelay_def toInt32_in_range)

lemma timerDelay_above_range:
  "2147483647 < n \<Longrightarrow> n < 4294967296 \<Longrightarrow> timerDelay n = 0"
  by (simp add: timerDelay_def toInt32_def Let_def)

lemma setRefreshTokenTimeout_eq:
  assumes "timerInv s" "oAuth s = Some tok"
  shows "setRefreshTokenTimeout opts now s =
           (Inr (),
            if expiresAt tok - now - refreshTokenTimeoutInMs opts > 0 then
              s\<lparr>refreshTokenTimeout := Some (nextHandle s),
                timers := [(nextHandle s,
                            now + timerDelay (expiresAt tok - now - refreshTokenTimeoutInMs opts))],
                nextHandle := Suc (nextHandle s)\<rparr>
            else axios (refreshGrant opts tok) RefreshK (s\<lparr>timers := []\<rparr>))"
proof (cases "refreshTokenTimeout s")
  case None
  then have "timers s = []" using assms(1) by (simp add: timerInv_none)
  then have "s\<lparr>timers := []\<rparr> = s" by simp
  with None assms(2) \<open>timers s = []\<close> show ?thesis
    by (simp add: setRefreshTokenTimeout_def Let_def refreshToken_start_def)
next
  case (Some h)
  then have "clearTimeout h s = s\<lparr>timers := []\<rparr>"
    using assms(1) by (simp add: clearTimeout_def timerInv_cleared)
  with Some assms(2) show ?thesis
    by (simp add: setRefreshTokenTimeout_def Let_def refreshToken_start_def)
qed

lemma setRefreshTokenTimeout_sent:
  assumes "oAuth s = Some tok"
  shows "sent (snd (setRefreshTokenTimeout opts now s)) =
           sent s @ (if expiresAt tok - now - refreshTokenTimeoutInMs opts \<le> 0
                     then [refreshGrant opts tok] else [])"
  using assms
  by (auto simp: setRefreshTokenTimeout_def Let_def refreshToken_start_def clearTimeout_def
      split: option.splits)

lemma refreshToken_resume_sent:
  "sent (snd (refreshToken_resume opts now now' (Inr d) s)) =
     sent s @ (if shouldRefreshToken opts
                  \<and> now + expires_in d * 1000 - now' - refreshTokenTimeoutInMs opts \<le> 0
               then [refreshGrant opts (newOAuth now d)] else [])"
proof -
  let ?s1 = "s\<lparr>oAuth := Some (newOAuth now d)\<rparr>"
  obtain r s2 where eq: "setRefreshTokenTimeout opts now' ?s1 = (r, s2)"
    by (cases "setRefreshTokenTimeout opts now' ?s1")
  have r: "r = Inr ()"
    using setRefreshTokenTimeout_ok [of ?s1 opts now'] eq by simp
  have "sent s2 = sent s @ (if expiresAt (newOAuth now d) - now' - refreshTokenTimeoutInMs opts \<le> 0
                     then [refreshGrant opts (newOAuth now d)] else [])"
    using setRefreshTokenTimeout_sent [of ?s1 "newOAuth now d" opts now'] eq by simp
  then show ?thesis
    using eq r by (simp add: refreshToken_resume_def Let_def newOAuth_def)
qed

lemma refreshThenResume_sent:
  "sent (snd (refreshThenResume opts now now' err (Inr d) s)) =
     sent s @ (if shouldRefreshToken opts
                  \<and> now + expires_in d * 1000 - now' - refreshTokenTimeoutInMs opts \<le> 0
               then [refreshGrant opts (newOAuth now d)] else [])
     @ map (\<lambda>c. replay c (access_token d)) (failedRequestsQueue s)"
proof -
  obtain r s1 where eq: "refreshToken_resume opts now now' (Inr d) s = (r, s1)"
    by (cases "refreshToken_resume opts now now' (Inr d) s")
  have "r = Inr ()" "oAuth s1 = Some (newOAuth now d)"
    using refreshToken_resume_success [of opts now now' d s] eq by simp_all
  moreover have "failedRequestsQueue s1 = failedRequestsQueue s"
    using refreshToken_resume_flag(2) [of opts now now' "Inr d" s] eq by simp
  moreover have "sent s1 = sent s @ (if shouldRefreshToken opts
                  \<and> now + expires_in d * 1000 - now' - refreshTokenTimeoutInMs opts \<le> 0
               then [refreshGrant opts (newOAuth now d)] else [])"
    using refreshToken_resume_sent [of opts now now' d s] eq by simp
  ultimately show ?thesis
    using eq by (simp add: refreshThenResume_def onRejected_resume_def processQueue_eq newOAuth_def)
qed

lemma refreshThenResume_failure:
  "snd (refreshThenResume opts now now' err (Inl e) s) =
     (snd (refreshToken_resume opts now now' (Inl e) s))
       \<lparr>failedRequestsQueue := [], isRefreshingToken := False\<rparr>"
proof -
  obtain r s1 where eq: "refreshToken_resume opts now now' (Inl e) s = (r, s1)"
    by (cases "refreshToken_resume opts now now' (Inl e) s")
  have "oAuth s1 = None"
    using refreshToken_resume_failure_no_bundle [of opts now now' e s] eq by simp
  then show ?thesis
    using eq by (simp add: refreshThenResume_def onRejected_resume_def split: sum.splits)
qed

lemma signOut_eq:
  "signOut s =
     s\<lparr>oAuth := None, user := None,
       timers := (case refreshTokenTimeout s of
                    None \<Rightarrow> timers s
                  | Some h \<Rightarrow> filter (\<lambda>(h', d). h' \<noteq> h) (timers s))\<rparr>"
  by (simp add: signOut_def clearTimeout_def Let_def split: option.splits)

lemma signOut_timers:
  "timerInv s \<Longrightarrow> timers (signOut s) = []"
  by (simp add: signOut_eq timerInv_none timerInv_cleared split: option.splits)


section \<open>While the handler's refresh is unanswered\<close>

text \<open>As long as no event settles the refresh grant the handler awaits, the flag stays
  set and the queue only grows at its end.\<close>

lemma onRejected_start_busy_queue:
  assumes "isRefreshingToken s"
  shows "\<exists>more. failedRequestsQueue (snd (onRejected_start opts k e s))
                 = failedRequestsQueue s @ more"
  using assms by (cases e) (auto simp: onRejected_start_def Let_def)

lemma quiet_respond:
  assumes flag: "isRefreshingToken s"
    and quiet: "\<not> (i < length (pending s) \<and> awaitedByHandler (snd (pending s ! i)))"
  shows "isRefreshingToken (respond opts now i res s)
       \<and> (\<exists>more. failedRequestsQueue (respond opts now i res s) = failedRequestsQueue s @ more)"
proof (cases "i < length (pending s) \<and> accepts (snd (pending s ! i)) res")
  case False
  with flag show ?thesis by (auto simp: respond_def)
next
  case True
  let ?k = "snd (pending s ! i)"
  let ?s1 = "s\<lparr>pending := take i (pending s) @ drop (Suc i) (pending s)\<rparr>"
  from True quiet have h: "\<not> awaitedByHandler ?k" by simp
  have flag1: "isRefreshingToken ?s1" using flag by simp
  show ?thesis
  proof (cases res)
    case (Inr b)
    have eq: "respond opts now i res s = continue ?k opts now res ?s1"
      using True Inr by (simp add: respond_def Let_def)
    show ?thesis
      using continue_flag [of ?k opts now res ?s1] h flag unfolding eq by simp
  next
    case (Inl e)
    obtain r s2 where st: "onRejected_start opts ?k e ?s1 = (r, s2)"
      by (cases "onRejected_start opts ?k e ?s1")
    have b: "r = Some (Inl e)" "isRefreshingToken s2"
      using onRejected_start_busy [OF flag1, of opts ?k e] st by simp_all
    obtain more where m: "failedRequestsQueue s2 = failedRequestsQueue s @ more"
      using onRejected_start_busy_queue [OF flag1, of opts ?k e] st by auto
    have eq: "respond opts now i res s = continue ?k opts now (Inl e) s2"
      using True Inl st b by (simp add: respond_def Let_def)
    show ?thesis
      using continue_flag [of ?k opts now "Inl e" s2] h b(2) m unfolding eq by simp
  qed
qed

lemma quiet_step:
  assumes flag: "isRefreshingToken s" and quiet: "\<not> answersHandler s ev"
  shows "isRefreshingToken (step opts s ev)
       \<and> (\<exists>more. failedRequestsQueue (step opts s ev) = failedRequestsQueue s @ more)"
proof (cases ev)
  case (Pair now e)
  show ?thesis
  proof (cases e)
    case (Respond i res)
    with Pair flag quiet show ?thesis by (simp add: quiet_respond)
  next
    case (TimerFires h)
    with Pair flag show ?thesis by simp
  next
    case (Call c)
    with Pair flag show ?thesis by simp
  qed
qed

lemma quiet_run:
  assumes "isRefreshingToken s" and "unanswered opts s evs"
  shows "isRefreshingToken (run opts evs s)
       \<and> (\<exists>more. failedRequestsQueue (run opts evs s) = failedRequestsQueue s @ more)"
  using assms
proof (induction evs arbitrary: s)
  case Nil
  then show ?case by (simp add: run_def)
next
  case (Cons ev evs)
  from Cons.prems have q: "\<not> answersHandler s ev" and rest: "unanswered opts (step opts s ev) evs"
    by simp_all
  obtain m1 where f1: "isRefreshingToken (step opts s ev)"
    and q1: "failedRequestsQueue (step opts s ev) = failedRequestsQueue s @ m1"
    using quiet_step [OF Cons.prems(1) q, of opts] by auto
  obtain m2 where f2: "isRefreshingToken (run opts evs (step opts s ev))"
    and q2: "failedRequestsQueue (run opts evs (step opts s ev))
               = failedRequestsQueue (step opts s ev) @ m2"
    using Cons.IH [OF f1 rest] by auto
  show ?case using f2 q1 q2 by (simp add: run_def)
qed

lemma accepts_error: "accepts k (Inl e)"
  by (cases k) (simp_all add: tokenResult_def dataResult_def)

lemma continue_protected_error:
  "k \<in> {RequestK, GetUserK, RevokeK} \<Longrightarrow> continue k opts now (Inl e) s = s"
  by (auto simp: dataResult_def getUser_resume_def)

section \<open>Claims\<close>

subsection \<open>C1: a successful sign-in and \<open>isAuthenticated\<close>\<close>

text \<open>
  Claim C1 says that after every successful \<open>signIn\<close> the signal \<open>isAuthenticated\<close>
  yields true, because it is derived from the presence of the token bundle. In the code
  \<open>isAuthenticated\<close> is \<open>user.value !== null\<close>, and \<open>signIn\<close> never assigns \<open>user\<close>.
  What holds (C1 as amended): a successful \<open>signIn\<close> resolves, stores the bundle built from
  the response, and leaves \<open>user\<close>, hence \<open>isAuthenticated\<close>, as it was.
\<close>

theorem signIn_success_keeps_isAuthenticated:
  "fst (signIn_resume opts now now' (Inr d) (signIn_start opts email password s)) = Inr ()
   \<and> oAuth (snd (signIn_resume opts now now' (Inr d) (signIn_start opts email password s)))
       = Some (newOAuth now d)
   \<and> user (snd (signIn_resume opts now now' (Inr d) (signIn_start opts email password s)))
       = user s
   \<and> isAuthenticated
         (snd (signIn_resume opts now now' (Inr d) (signIn_start opts email password s)))
       = isAuthenticated s"
  by (simp add: signIn_resume_success isAuthenticated_def signIn_start_def)

theorem signIn_success_keeps_isAuthenticated_witness:
  "isAuthenticated
     (snd (signIn_resume opts0 5000 5000 (Inr data1)
            (signIn_start opts0 ''alice@test'' ''pw'' signedIn)))
   \<and> oAuth (snd (signIn_resume opts0 5000 5000 (Inr data1)
                   (signIn_start opts0 ''alice@test'' ''pw'' signedIn)))
       = Some (newOAuth 5000 data1)"
proof -
  have "isAuthenticated signedIn" by code_simp
  then show ?thesis
    using signIn_success_keeps_isAuthenticated
            [where opts = opts0 and now = 5000 and now' = 5000 and d = data1
               and email = "''alice@test''" and password = "''pw''" and s = signedIn]
    by simp
qed

text \<open>The claim as stated fails on a fresh page: the sign-in has succeeded, the bundle is
  stored, and \<open>isAuthenticated\<close> is false.\<close>

theorem signIn_success_not_authenticated:
  "oAuth justSignedIn = Some bundle0 \<and> \<not> isAuthenticated justSignedIn"
  by code_simp

subsection \<open>C2: a rejected refresh grant\<close>

text \<open>
  Claim C2 says that a rejected refresh grant clears the token bundle and the user, turns
  \<open>isAuthenticated\<close> to false, calls \<open>onRefreshTokenFailed\<close> exactly once and is not retried.
  The \<open>catch\<close> block of \<open>refreshToken\<close> assigns \<open>oAuth\<close> and calls the callback, nothing
  more. What holds (C2 as amended): the bundle is set absent, then the callback, when
  configured, is called exactly once, and the state afterwards is what the callback's own
  calls make of it; the bundle is absent afterwards whatever the callback does;
  \<open>refreshToken\<close> itself neither touches the user nor sends a request, so with no callback,
  or with one that makes no calls, \<open>user\<close>, \<open>isAuthenticated\<close> and the requests sent are as
  before.
\<close>

theorem refreshToken_rejected_bundle_cleared_callback_once:
  "snd (refreshToken_resume opts now now' (Inl e) s) =
     (case onRefreshTokenFailed opts of
        None \<Rightarrow> s\<lparr>oAuth := None\<rparr>
      | Some cb \<Rightarrow>
          performAll opts (fst (cb (s\<lparr>oAuth := None\<rparr>)))
            (s\<lparr>oAuth := None, callbackCalls := Suc (callbackCalls s)\<rparr>))
   \<and> oAuth (snd (refreshToken_resume opts now now' (Inl e) s)) = None
   \<and> callbackCalls (snd (refreshToken_resume opts now now' (Inl e) s)) =
       callbackCalls s + (case onRefreshTokenFailed opts of None \<Rightarrow> 0 | Some cb \<Rightarrow> 1)
   \<and> ((case onRefreshTokenFailed opts of
          None \<Rightarrow> []
        | Some cb \<Rightarrow> fst (cb (s\<lparr>oAuth := None\<rparr>))) = [] \<longrightarrow>
        user (snd (refreshToken_resume opts now now' (Inl e) s)) = user s
        \<and> isAuthenticated (snd (refreshToken_resume opts now now' (Inl e) s)) = isAuthenticated s
        \<and> sent (snd (refreshToken_resume opts now now' (Inl e) s)) = sent s
        \<and> pending (snd (refreshToken_resume opts now now' (Inl e) s)) = pending s)"
proof -
  have a: "callbackCalls (snd (refreshToken_resume opts now now' (Inl e) s)) =
       callbackCalls s + (case onRefreshTokenFailed opts of None \<Rightarrow> 0 | Some cb \<Rightarrow> 1)"
    by (simp add: refreshToken_resume_def)
  have b: "user (snd (refreshToken_resume opts now now' (Inl e) s)) = user s
        \<and> isAuthenticated (snd (refreshToken_resume opts now now' (Inl e) s)) = isAuthenticated s
        \<and> sent (snd (refreshToken_resume opts now now' (Inl e) s)) = sent s
        \<and> pending (snd (refreshToken_resume opts now now' (Inl e) s)) = pending s"
    if "(case onRefreshTokenFailed opts of
          None \<Rightarrow> []
        | Some cb \<Rightarrow> fst (cb (s\<lparr>oAuth := None\<rparr>))) = []"
    using that
    by (simp add: refreshToken_resume_failure performAll_def isAuthenticated_def
        split: option.splits)
  show ?thesis
    using a b refreshToken_resume_failure [of opts now now' e s]
      refreshToken_resume_failure_no_bundle [of opts now now' e s]
    by blast
qed

theorem refreshToken_rejected_bundle_cleared_callback_once_witness:
  "fst (the (onRefreshTokenFailed opts0) (signedIn\<lparr>oAuth := None\<rparr>)) = []
   \<and> oAuth
       (snd (refreshToken_resume opts0 3541500 3541500 (Inl (AxiosError (Some 400) None))
              signedIn)) = None
   \<and> callbackCalls
       (snd (refreshToken_resume opts0 3541500 3541500 (Inl (AxiosError (Some 400) None))
              signedIn)) = 1
   \<and> user
       (snd (refreshToken_resume opts0 3541500 3541500 (Inl (AxiosError (Some 400) None))
              signedIn)) = Some ''alice''"
proof -
  have c: "onRefreshTokenFailed opts0 = Some (\<lambda>s. ([], False))" by (simp add: opts0_def)
  have n: "callbackCalls signedIn = 0" by code_simp
  have u: "user signedIn = Some ''alice''" by code_simp
  show ?thesis
    using refreshToken_rejected_bundle_cleared_callback_once
            [where opts = opts0 and now = 3541500 and now' = 3541500
               and e = "AxiosError (Some 400) None" and s = signedIn]
    by (simp add: c n u performAll_def)
qed

text \<open>The claim as stated fails after the timer's refresh is rejected, with a callback that
  makes no calls: the bundle is gone and the callback has run once, but the user is still
  there and \<open>isAuthenticated\<close> is true.\<close>

theorem refreshToken_rejected_user_stays:
  "oAuth refreshRejected = None
   \<and> callbackCalls refreshRejected = 1
   \<and> user refreshRejected = Some ''alice''
   \<and> isAuthenticated refreshRejected"
  by code_simp

text \<open>With \<open>onRefreshTokenFailed: () => signOut()\<close> the user is cleared, by the callback.\<close>

lemma refreshToken_rejected_callback_signs_out:
  "user (snd (refreshToken_resume optsSignOut 3541500 3541500 (Inl (AxiosError (Some 400) None))
               signedIn)) = None
   \<and> timers (snd (refreshToken_resume optsSignOut 3541500 3541500
                     (Inl (AxiosError (Some 400) None)) signedIn)) = []"
  by code_simp

subsection \<open>C3: two 401 responses, one refresh\<close>

text \<open>
  Claim C3 says that two protected requests answered 401 while no refresh is in flight
  cause exactly one refresh grant, are queued and replayed in arrival order with the new
  access token, that the queue and the flag are cleared whatever the refresh's outcome, and
  that at most one refresh is ever in flight. The last part fails: the flag is read by the
  error handler only. What holds (C3 as amended), for a page that has called \<open>useAuth\<close>
  once, in any state \<open>s\<close> the loop reaches with a bundle and the flag unset: when a pending
  request is answered 401, the handler sends the refresh grant and waits, the request's
  continuation with it. Let any events follow that do not answer that grant; then a pending
  request of the application (a request of its own, \<open>getUser\<close> or \<open>revoke\<close>) is answered
  401 while the bundle is still present; then again any events that do not answer the
  grant. The second response sends nothing and its request is settled at once; the flag is
  still set and the handler's refresh grant is the only one of its kind pending; the queue
  holds the first request before the second (and nothing else when no event came between).
  When the grant is answered with a token, the requests sent are the scheduler's immediate
  refresh (if the new bundle is already inside the pre-fetch window) and then the replays
  of the queue, in its order, with the new access token; when it is rejected the handler
  replays nothing and adds nothing to what \<open>refreshToken\<close> does; either way the queue is
  empty and the flag unset afterwards. In every reachable state at most one refresh grant
  awaited by the handler is pending.
\<close>

theorem two_401s_single_handler_refresh:
  assumes reach: "s = run opts evs (init opts boot stored)"
    and tok: "oAuth s = Some tok"
    and idle: "\<not> isRefreshingToken s"
    and i1: "i1 < length (pending s)"
    and u1: "url c1 \<noteq> Some ''/oauth/token''"
    and s1: "s1 = step opts s (t1, Respond i1 (Inl (AxiosError (Some 401) (Some c1))))"
    and between: "unanswered opts s1 between"
    and s1': "s1' = run opts between s1"
    and tok2: "oAuth s1' \<noteq> None"
    and i2: "i2 < length (pending s1')"
    and k2: "snd (pending s1' ! i2) \<in> {RequestK, GetUserK, RevokeK}"
    and u2: "url c2 \<noteq> Some ''/oauth/token''"
    and s2: "s2 = step opts s1' (t2, Respond i2 (Inl (AxiosError (Some 401) (Some c2))))"
    and later: "unanswered opts s2 later"
    and s3: "s3 = run opts later s2"
  shows "sent s1 = sent s @ [refreshGrant opts tok]
       \<and> pending s1 =
           take i1 (pending s) @ drop (Suc i1) (pending s)
           @ [(refreshGrant opts tok,
               HandlerK (AxiosError (Some 401) (Some c1)) (snd (pending s ! i1)))]
       \<and> sent s2 = sent s1'
       \<and> pending s2 = take i2 (pending s1') @ drop (Suc i2) (pending s1')
       \<and> isRefreshingToken s3
       \<and> handlerRefreshes s3 = 1
       \<and> (\<exists>mid rest. failedRequestsQueue s3 = Some c1 # mid @ Some c2 # rest)
       \<and> (between = [] \<and> later = [] \<longrightarrow> failedRequestsQueue s3 = [Some c1, Some c2])
       \<and> sent (snd (refreshThenResume opts now now' err (Inr d) s3)) =
           sent s3
           @ (if shouldRefreshToken opts
                 \<and> now + expires_in d * 1000 - now' - refreshTokenTimeoutInMs opts \<le> 0
              then [refreshGrant opts (newOAuth now d)] else [])
           @ map (\<lambda>c. replay c (access_token d)) (failedRequestsQueue s3)
       \<and> snd (refreshThenResume opts now now' err (Inl e) s3) =
           (snd (refreshToken_resume opts now now' (Inl e) s3))
             \<lparr>failedRequestsQueue := [], isRefreshingToken := False\<rparr>
       \<and> failedRequestsQueue (snd (refreshThenResume opts now now' err res s3)) = []
       \<and> \<not> isRefreshingToken (snd (refreshThenResume opts now now' err res s3))
       \<and> handlerRefreshes (run opts evs' (init opts boot' stored')) \<le> 1"
proof -
  let ?e1 = "AxiosError (Some 401) (Some c1)"
  let ?e2 = "AxiosError (Some 401) (Some c2)"
  let ?k1 = "snd (pending s ! i1)"
  let ?k2 = "snd (pending s1' ! i2)"
  let ?r = "s\<lparr>pending := take i1 (pending s) @ drop (Suc i1) (pending s)\<rparr>"
  let ?r' = "s1'\<lparr>pending := take i2 (pending s1') @ drop (Suc i2) (pending s1')\<rparr>"
  have inv: "flagInv s" using reach by (simp add: flagInv_run)
  then have q: "failedRequestsQueue s = []"
    using idle by (simp add: flagInv_def)
  have first: "onRejected_start opts ?k1 ?e1 ?r =
      (None, axios (refreshGrant opts tok) (HandlerK ?e1 ?k1)
               (?r\<lparr>failedRequestsQueue := [Some c1], isRefreshingToken := True\<rparr>))"
    using tok idle u1 q by (simp add: onRejected_start_def Let_def refreshToken_start_def)
  have s1_eq: "s1 = axios (refreshGrant opts tok) (HandlerK ?e1 ?k1)
               (?r\<lparr>failedRequestsQueue := [Some c1], isRefreshingToken := True\<rparr>)"
    unfolding s1 using i1 first by (simp add: respond_def Let_def accepts_error)
  have a1: "sent s1 = sent s @ [refreshGrant opts tok]"
    "pending s1 = take i1 (pending s) @ drop (Suc i1) (pending s)
                  @ [(refreshGrant opts tok, HandlerK ?e1 ?k1)]"
    "failedRequestsQueue s1 = [Some c1]" "isRefreshingToken s1"
    unfolding s1_eq by simp_all
  have inv1: "flagInv s1" unfolding s1 using inv by (rule flagInv_step)
  obtain mid where mid: "failedRequestsQueue s1' = Some c1 # mid" and f1': "isRefreshingToken s1'"
    using quiet_run [OF a1(4) between] a1(3) unfolding s1' by auto
  have inv1': "flagInv s1'" unfolding s1' run_def using inv1 by (rule flagInv_foldl)
  have second: "onRejected_start opts ?k2 ?e2 ?r' =
      (Some (Inl ?e2), ?r'\<lparr>failedRequestsQueue := failedRequestsQueue s1' @ [Some c2]\<rparr>)"
    using tok2 u2 f1' by (auto simp: onRejected_start_def Let_def)
  have s2_eq: "s2 = ?r'\<lparr>failedRequestsQueue := failedRequestsQueue s1' @ [Some c2]\<rparr>"
    unfolding s2 using i2 second continue_protected_error [OF k2]
    by (simp add: respond_def Let_def accepts_error)
  have a2: "sent s2 = sent s1'"
    "pending s2 = take i2 (pending s1') @ drop (Suc i2) (pending s1')"
    "isRefreshingToken s2" "failedRequestsQueue s2 = Some c1 # mid @ [Some c2]"
    unfolding s2_eq using f1' mid by simp_all
  have inv2: "flagInv s2" unfolding s2 using inv1' by (rule flagInv_step)
  obtain more where more: "failedRequestsQueue s3 = failedRequestsQueue s2 @ more"
    and f3: "isRefreshingToken s3"
    using quiet_run [OF a2(3) later] unfolding s3 by auto
  have inv3: "flagInv s3" unfolding s3 run_def using inv2 by (rule flagInv_foldl)
  have n3: "handlerRefreshes s3 = 1" using inv3 f3 by (simp add: flagInv_def)
  have order: "\<exists>mid rest. failedRequestsQueue s3 = Some c1 # mid @ Some c2 # rest"
    using more a2(4) by auto
  have exact: "failedRequestsQueue s3 = [Some c1, Some c2]" if "between = [] \<and> later = []"
  proof -
    from that have "s1' = s1" "s3 = s2" unfolding s1' s3 by (simp_all add: run_def)
    then show ?thesis using a1(3) unfolding s2_eq by simp
  qed
  have ok: "sent (snd (refreshThenResume opts now now' err (Inr d) s3)) =
           sent s3
           @ (if shouldRefreshToken opts
                 \<and> now + expires_in d * 1000 - now' - refreshTokenTimeoutInMs opts \<le> 0
              then [refreshGrant opts (newOAuth now d)] else [])
           @ map (\<lambda>c. replay c (access_token d)) (failedRequestsQueue s3)"
    by (rule refreshThenResume_sent)
  have ko: "snd (refreshThenResume opts now now' err (Inl e) s3) =
           (snd (refreshToken_resume opts now now' (Inl e) s3))
             \<lparr>failedRequestsQueue := [], isRefreshingToken := False\<rparr>"
    by (rule refreshThenResume_failure)
  have "flagInv (run opts evs' (init opts boot' stored'))" by (rule flagInv_run)
  then have all: "handlerRefreshes (run opts evs' (init opts boot' stored')) \<le> 1"
    by (simp add: flagInv_def split: if_splits)
  have clr: "failedRequestsQueue (snd (refreshThenResume opts now now' err res s3)) = []"
    "\<not> isRefreshingToken (snd (refreshThenResume opts now now' err res s3))"
    by simp_all
  show ?thesis
    using a1(1,2) a2(1,2) f3 n3 order exact ok ko clr all by blast
qed

theorem two_401s_single_handler_refresh_witness:
  "pending requested = [(get ''/a'', RequestK), (get ''/b'', RequestK)]
   \<and> sent (step opts0 requested (3540500, Respond 0 (Inl (err401 ''/a''))))
       = sent requested @ [refreshGrant opts0 bundle0]
   \<and> (\<exists>mid rest.
         failedRequestsQueue
           (step opts0
              (run opts0 [(3540550, Call GetUser)]
                 (step opts0 requested (3540500, Respond 0 (Inl (err401 ''/a'')))))
              (3540600, Respond 0 (Inl (err401 ''/b''))))
         = Some (get ''/a'') # mid @ Some (get ''/b'') # rest)"
proof -
  let ?s1 = "step opts0 requested
               (3540500, Respond 0 (Inl (AxiosError (Some 401) (Some (get ''/a'')))))"
  let ?s1' = "run opts0 [(3540550, Call GetUser)] ?s1"
  let ?s2 = "step opts0 ?s1' (3540600, Respond 0 (Inl (AxiosError (Some 401) (Some (get ''/b'')))))"
  have r: "requested = run opts0
       [(0, Call (SignIn ''alice@test'' ''pw'')), (1000, Respond 0 (Inr (TokenBody data0))),
        (1500, Call GetUser), (2000, Respond 0 (Inr (DataBody (Some ''alice'')))),
        (3540000, Call (Request (get ''/a''))), (3540100, Call (Request (get ''/b'')))]
       (init opts0 0 None)"
    by (simp add: requested_def fresh_def)
  have tok: "oAuth requested = Some bundle0" by code_simp
  have idle: "\<not> isRefreshingToken requested" by code_simp
  have p: "pending requested = [(get ''/a'', RequestK), (get ''/b'', RequestK)]" by code_simp
  have i1: "0 < length (pending requested)" by (simp add: p)
  have u1: "url (get ''/a'') \<noteq> Some ''/oauth/token''" by (simp add: get_def)
  have u2: "url (get ''/b'') \<noteq> Some ''/oauth/token''" by (simp add: get_def)
  have b: "unanswered opts0 ?s1 [(3540550, Call GetUser)]" by simp
  have tok2: "oAuth ?s1' \<noteq> None" by code_simp
  have i2: "0 < length (pending ?s1')" by code_simp
  have k2: "snd (pending ?s1' ! 0) \<in> {RequestK, GetUserK, RevokeK}" by code_simp
  have l: "unanswered opts0 ?s2 []" by simp
  have "sent ?s1 = sent requested @ [refreshGrant opts0 bundle0]
        \<and> (\<exists>mid rest. failedRequestsQueue (run opts0 [] ?s2)
                            = Some (get ''/a'') # mid @ Some (get ''/b'') # rest)"
    using two_401s_single_handler_refresh
            [OF r tok idle i1 u1 refl b refl tok2 i2 k2 u2 refl l refl]
    by blast
  then show ?thesis
    using p by (simp add: err401_def run_def)
qed

text \<open>The claim as stated fails when the timer fires while the handler's refresh is
  pending: \<open>refreshToken\<close> does not read the flag, and two refresh grants are in flight.\<close>

theorem two_refreshes_in_flight:
  "isRefreshingToken two401s \<and> refreshesInFlight two401s = 1
   \<and> refreshesInFlight timerDuringRefresh = 2"
  by code_simp

subsection \<open>C4: errors the interceptor passes on\<close>

text \<open>
  Claim C4: for every response error seen by the handler, if the status is not 401, or the
  token bundle is absent, or the failing request's URL is \<open>/oauth/token\<close> (and likewise if
  the error is no \<open>AxiosError\<close>), the handler rejects with the same error at once and the
  state is unchanged: no refresh is started and nothing is queued.
\<close>

theorem interceptor_propagates_unchanged:
  assumes "case err of
             AxiosError status cfg \<Rightarrow>
               status \<noteq> Some 401 \<or> oAuth s = None
               \<or> (case cfg of None \<Rightarrow> None | Some c \<Rightarrow> url c) = Some ''/oauth/token''
           | _ \<Rightarrow> True"
  shows "onRejected_start opts k err s = (Some (Inl err), s)"
  using assms by (cases err) (auto simp: onRejected_start_def Let_def)

theorem interceptor_propagates_unchanged_witness:
  "onRejected_start opts0 RefreshK (AxiosError (Some 401) (Some (refreshGrant opts0 bundle0)))
     signedIn
   = (Some (Inl (AxiosError (Some 401) (Some (refreshGrant opts0 bundle0)))), signedIn)"
proof -
  have "url (refreshGrant opts0 bundle0) = Some ''/oauth/token''"
    by (simp add: refreshGrant_def tokenRequest_def)
  then show ?thesis
    using interceptor_propagates_unchanged
            [where err = "AxiosError (Some 401) (Some (refreshGrant opts0 bundle0))"
               and s = signedIn and opts = opts0 and k = RefreshK]
    by simp
qed

subsection \<open>C5: the original call rejects with the original error\<close>

text \<open>
  Claim C5: the promise of the error handler never resolves with a replayed response. Up
  to its \<open>await\<close> the handler either rejects with the original error or is suspended on the
  refresh grant it has just sent; once that grant is answered, with a token or with an
  error, the handler rejects with the original error, and this rejection is what the
  continuation of the original request receives. The replays are sent by \<open>processQueue\<close>
  and their responses go to no one.
\<close>

theorem handler_rejects_with_original_error:
  "(case fst (onRejected_start opts k err s) of
      Some r \<Rightarrow> r = Inl err
    | None \<Rightarrow> pending (snd (onRejected_start opts k err s)) \<noteq> []
             \<and> snd (last (pending (snd (onRejected_start opts k err s)))) = HandlerK err k)
   \<and> fst (onRejected_resume err r' s') = Inl err
   \<and> fst (refreshThenResume opts now now' err res s') = Inl err
   \<and> continue (HandlerK err k) opts now (Inr (TokenBody d)) s' =
       continue k opts now (Inl err) (snd (refreshThenResume opts now now err (Inr d) s'))
   \<and> continue (HandlerK err k) opts now (Inl e) s' =
       continue k opts now (Inl err) (snd (refreshThenResume opts now now err (Inl e) s'))"
proof -
  have a: "(case fst (onRejected_start opts k err s) of
      Some r \<Rightarrow> r = Inl err
    | None \<Rightarrow> pending (snd (onRejected_start opts k err s)) \<noteq> []
             \<and> snd (last (pending (snd (onRejected_start opts k err s)))) = HandlerK err k)"
    by (cases err)
       (auto simp: onRejected_start_def Let_def refreshToken_start_def axios_def
             split: option.splits)
  have b: "fst (onRejected_resume err r s) = Inl err" for r s
    by (simp add: onRejected_resume_def Let_def)
  have c: "fst (refreshThenResume opts now now' err res s) = Inl err" for now now' res s
    by (simp add: refreshThenResume_def b split: prod.splits)
  have d: "continue (HandlerK err k) opts now res s' =
       continue k opts now (Inl err) (snd (refreshThenResume opts now now err r s'))"
    if "tokenResult res = Some r" for res r
    using that c [of now now r s']
    by (cases "refreshThenResume opts now now err r s'") simp
  show ?thesis
    using a b c d [of "Inr (TokenBody d)" "Inr d"] d [of "Inl e" "Inl e"]
    by (simp add: tokenResult_def)
qed

theorem handler_rejects_with_original_error_witness:
  "fst (onRejected_start opts0 RequestK (err401 ''/a'') signedIn) = None
   \<and> fst (refreshThenResume opts0 3541500 3541500 (err401 ''/a'') (Inr data1)
            (snd (onRejected_start opts0 RequestK (err401 ''/a'') signedIn)))
       = Inl (err401 ''/a'')"
proof -
  have "fst (onRejected_start opts0 RequestK (err401 ''/a'') signedIn) = None" by code_simp
  then show ?thesis
    using handler_rejects_with_original_error
            [where opts = opts0 and k = RequestK and err = "err401 ''/a''" and s = signedIn
               and now = 3541500 and now' = 3541500 and res = "Inr data1"
               and s' = "snd (onRejected_start opts0 RequestK (err401 ''/a'') signedIn)"]
    by simp
qed

subsection \<open>C6: the refresh scheduler\<close>

text \<open>
  Claim C6 says that the scheduler, run on a present token bundle, cancels the earlier
  timer, computes \<open>timeoutInMs = expiresAt - now - window\<close> and, when \<open>timeoutInMs > 0\<close>,
  calls \<open>refreshToken()\<close> after that delay. The code hands \<open>timeoutInMs\<close> to \<open>setTimeout\<close>
  as it is, and \<open>setTimeout\<close> keeps a signed 32-bit delay. With the 30-day token answered at
  time 1000, \<open>timeoutInMs\<close> is 2591940000, above 2147483647: the timer is due at time 1000,
  and fired then it sends the refresh grant, 2591940000 ms before the claim has it.
\<close>

theorem scheduler_long_lived_token_due_at_once:
  "oAuth longLived = Some (newOAuth 1000 data30d)
   \<and> expiresAt (newOAuth 1000 data30d) - 1000 - refreshTokenTimeoutInMs opts0 = 2591940000
   \<and> timers longLived = [(0, 1000)]
   \<and> sent (step opts0 longLived (1000, TimerFires 0)) =
       sent longLived @ [refreshGrant opts0 (newOAuth 1000 data30d)]"
  by code_simp

text \<open>
  What the scheduler does in every state the loop reaches with a token bundle: it returns
  normally and leaves no earlier timer outstanding; the window is \<open>preFetchInMs\<close> when
  \<open>autoRefreshAccessToken\<close> is an object and 60000 otherwise; when \<open>timeoutInMs > 0\<close> it sets
  one timer, due \<open>timerDelay timeoutInMs\<close> after \<open>now\<close>, and records its handle; otherwise it
  sends the refresh grant at once with no timer outstanding. When \<open>timeoutInMs\<close> is at most
  2147483647 the timer is due exactly \<open>timeoutInMs\<close> after \<open>now\<close>. At most one timer is
  outstanding before and after; it does not fire before it is due, and when it fires it is
  gone and the refresh grant is sent.
\<close>

lemma scheduler_policy:
  assumes "s = run opts evs (init opts boot stored)" and "oAuth s = Some tok"
  shows "setRefreshTokenTimeout opts now s =
           (Inr (),
            if expiresAt tok - now - refreshTokenTimeoutInMs opts > 0 then
              s\<lparr>refreshTokenTimeout := Some (nextHandle s),
                timers := [(nextHandle s,
                            now + timerDelay (expiresAt tok - now - refreshTokenTimeoutInMs opts))],
                nextHandle := Suc (nextHandle s)\<rparr>
            else axios (refreshGrant opts tok) RefreshK (s\<lparr>timers := []\<rparr>))
       \<and> (expiresAt tok - now - refreshTokenTimeoutInMs opts \<le> 2147483647 \<longrightarrow>
            0 < expiresAt tok - now - refreshTokenTimeoutInMs opts \<longrightarrow>
            timerDelay (expiresAt tok - now - refreshTokenTimeoutInMs opts)
              = expiresAt tok - now - refreshTokenTimeoutInMs opts)
       \<and> length (timers s) \<le> 1
       \<and> length (timers (snd (setRefreshTokenTimeout opts now s))) \<le> 1
       \<and> refreshTokenTimeoutInMs opts =
           (case autoRefreshAccessToken opts of Some (AutoRefreshObj p) \<Rightarrow> p | _ \<Rightarrow> 60000)
       \<and> (\<forall>h due later. timers s = [(h, due)] \<longrightarrow>
             step opts s (later, TimerFires h) =
               (if due \<le> later then axios (refreshGrant opts tok) RefreshK (s\<lparr>timers := []\<rparr>)
                else s))"
proof -
  have inv: "timerInv s" using assms(1) by (simp add: timerInv_run)
  have eq: "setRefreshTokenTimeout opts now s =
           (Inr (),
            if expiresAt tok - now - refreshTokenTimeoutInMs opts > 0 then
              s\<lparr>refreshTokenTimeout := Some (nextHandle s),
                timers := [(nextHandle s,
                            now + timerDelay (expiresAt tok - now - refreshTokenTimeoutInMs opts))],
                nextHandle := Suc (nextHandle s)\<rparr>
            else axios (refreshGrant opts tok) RefreshK (s\<lparr>timers := []\<rparr>))"
    using inv assms(2) by (rule setRefreshTokenTimeout_eq)
  have rng: "timerDelay (expiresAt tok - now - refreshTokenTimeoutInMs opts)
              = expiresAt tok - now - refreshTokenTimeoutInMs opts"
    if "expiresAt tok - now - refreshTokenTimeoutInMs opts \<le> 2147483647"
      "0 < expiresAt tok - now - refreshTokenTimeoutInMs opts"
    using that by (simp add: timerDelay_in_range)
  have one: "length (timers s) \<le> 1" using inv by (simp add: timerInv_def)
  have one': "length (timers (snd (setRefreshTokenTimeout opts now s))) \<le> 1"
    unfolding eq by simp
  have win: "refreshTokenTimeoutInMs opts =
           (case autoRefreshAccessToken opts of Some (AutoRefreshObj p) \<Rightarrow> p | _ \<Rightarrow> 60000)"
    by (simp add: refreshTokenTimeoutInMs_def split: option.splits auto_refresh.splits)
  have fire: "step opts s (later, TimerFires h) =
               (if due \<le> later then axios (refreshGrant opts tok) RefreshK (s\<lparr>timers := []\<rparr>)
                else s)"
    if "timers s = [(h, due)]" for h due later
    using that assms(2) by (simp add: refreshToken_start_def clearTimeout_def)
  show ?thesis using eq rng one one' win fire by blast
qed

subsection \<open>C7: calls without a token bundle\<close>

text \<open>
  Claim C7: when the token bundle is absent, \<open>refreshToken\<close>, \<open>revoke\<close> and \<open>getUser\<close> each
  reject with \<open>Error('Not logged in')\<close> and leave the whole state as it is; in particular
  no request is sent.
\<close>

theorem not_logged_in_fails_fast:
  assumes "oAuth s = None"
  shows "refreshToken_start opts k s = (Inl (Error ''Not logged in''), s)
       \<and> revoke_start opts s = (Inl (Error ''Not logged in''), s)
       \<and> getUser_start opts s = (Inl (Error ''Not logged in''), s)"
  using assms by (simp add: refreshToken_start_def revoke_start_def getUser_start_def)

theorem not_logged_in_fails_fast_witness:
  "oAuth fresh = None
   \<and> refreshToken_start opts0 RefreshK fresh = (Inl (Error ''Not logged in''), fresh)
   \<and> revoke_start opts0 fresh = (Inl (Error ''Not logged in''), fresh)
   \<and> getUser_start opts0 fresh = (Inl (Error ''Not logged in''), fresh)"
proof -
  have h: "oAuth fresh = None" by code_simp
  show ?thesis using h not_logged_in_fails_fast [OF h, of opts0 RefreshK] by simp
qed

subsection \<open>C8: the stored expiry\<close>

text \<open>
  Claim C8: after a successful sign-in response and after a successful refresh response
  the stored \<open>expiresAt\<close> is \<open>Date.now()\<close> at the assignment plus \<open>expires_in * 1000\<close>.
\<close>

theorem expiresAt_is_receipt_plus_expires_in:
  "map_option expiresAt (oAuth (snd (signIn_resume opts now now' (Inr d) s)))
     = Some (now + expires_in d * 1000)
   \<and> map_option expiresAt (oAuth (snd (refreshToken_resume opts now now' (Inr d) s)))
     = Some (now + expires_in d * 1000)"
  by (simp add: signIn_resume_success refreshToken_resume_success newOAuth_def)

theorem expiresAt_is_receipt_plus_expires_in_witness:
  "map_option expiresAt (oAuth (snd (signIn_resume opts0 1000 1000 (Inr data0) fresh)))
     = Some 3601000
   \<and> map_option expiresAt
       (oAuth (snd (refreshToken_resume opts0 3541500 3541500 (Inr data0) signedIn)))
     = Some 7141500"
proof -
  have "expires_in data0 = 3600" by (simp add: data0_def)
  then show ?thesis
    using expiresAt_is_receipt_plus_expires_in [of opts0 1000 1000 data0 fresh]
      expiresAt_is_receipt_plus_expires_in [of opts0 3541500 3541500 data0 signedIn]
    by simp
qed

subsection \<open>C9: \<open>signOut\<close>\<close>

text \<open>
  Claim C9: \<open>signOut\<close> is a total state change with no error result; after it the token
  bundle and the user are absent; the timer whose handle \<open>refreshTokenTimeout\<close> holds is
  cleared, which in every state the loop reaches leaves no timer outstanding; and a second
  \<open>signOut\<close> changes nothing.
\<close>

theorem signOut_clears_and_is_idempotent:
  "oAuth (signOut s) = None
   \<and> user (signOut s) = None
   \<and> \<not> isAuthenticated (signOut s)
   \<and> timers (signOut s) =
       (case refreshTokenTimeout s of
          None \<Rightarrow> timers s
        | Some h \<Rightarrow> filter (\<lambda>(h', d). h' \<noteq> h) (timers s))
   \<and> timers (signOut (run opts evs (init opts boot stored))) = []
   \<and> signOut (signOut s) = signOut s"
proof -
  have "signOut (signOut s) = signOut s"
    by (simp add: signOut_def clearTimeout_def Let_def split: option.splits)
  moreover have "timers (signOut (run opts evs (init opts boot stored))) = []"
    by (simp add: signOut_timers timerInv_run)
  ultimately show ?thesis
    by (simp add: signOut_eq isAuthenticated_def)
qed

theorem signOut_clears_and_is_idempotent_witness:
  "timers signedIn = [(0, 3541000)] \<and> timers (signOut signedIn) = []
   \<and> signOut (signOut signedIn) = signOut signedIn"
proof -
  have t: "timers signedIn = [(0, 3541000)]" by code_simp
  have r: "run opts0
       [(0, Call (SignIn ''alice@test'' ''pw'')), (1000, Respond 0 (Inr (TokenBody data0))),
        (1500, Call GetUser), (2000, Respond 0 (Inr (DataBody (Some ''alice''))))]
       (init opts0 0 None) = signedIn"
    by (simp add: signedIn_def fresh_def)
  have "timers (signOut signedIn) = [] \<and> signOut (signOut signedIn) = signOut signedIn"
    using signOut_clears_and_is_idempotent
            [where s = signedIn and opts = opts0 and boot = 0 and stored = None
               and evs = "[(0, Call (SignIn ''alice@test'' ''pw'')),
                           (1000, Respond 0 (Inr (TokenBody data0))),
                           (1500, Call GetUser),
                           (2000, Respond 0 (Inr (DataBody (Some ''alice''))))]"]
    unfolding r by blast
  with t show ?thesis by simp
qed

subsection \<open>C10: what \<open>signOut\<close> leaves alone\<close>

text \<open>
  Claim C10: \<open>signOut\<close> changes the token bundle, the user and the outstanding timer, and
  nothing else: \<open>failedRequestsQueue\<close>, \<open>isRefreshingToken\<close> and the pending requests are as
  before. So a refresh awaited by the error handler at sign-out still runs to its end: when
  its grant succeeds, the queued requests are replayed in order with the new access token
  (after the scheduler's immediate refresh, if any), and whatever the outcome the queue is
  emptied and the flag unset.
\<close>

theorem signOut_leaves_queue_and_flag:
  "signOut s =
     s\<lparr>oAuth := None, user := None,
       timers := (case refreshTokenTimeout s of
                    None \<Rightarrow> timers s
                  | Some h \<Rightarrow> filter (\<lambda>(h', d). h' \<noteq> h) (timers s))\<rparr>
   \<and> failedRequestsQueue (signOut s) = failedRequestsQueue s
   \<and> isRefreshingToken (signOut s) = isRefreshingToken s
   \<and> pending (signOut s) = pending s
   \<and> sent (snd (refreshThenResume opts now now' err (Inr d) (signOut s))) =
       sent s
       @ (if shouldRefreshToken opts
             \<and> now + expires_in d * 1000 - now' - refreshTokenTimeoutInMs opts \<le> 0
          then [refreshGrant opts (newOAuth now d)] else [])
       @ map (\<lambda>c. replay c (access_token d)) (failedRequestsQueue s)
   \<and> failedRequestsQueue (snd (refreshThenResume opts now now' err res (signOut s))) = []
   \<and> isRefreshingToken (snd (refreshThenResume opts now now' err res (signOut s))) = False"
proof -
  have f: "failedRequestsQueue (signOut s) = failedRequestsQueue s"
    "isRefreshingToken (signOut s) = isRefreshingToken s"
    "pending (signOut s) = pending s" "sent (signOut s) = sent s"
    by (simp_all add: signOut_eq)
  show ?thesis
    using f refreshThenResume_sent [of opts now now' err d "signOut s"]
    by (simp add: signOut_eq [symmetric])
qed

theorem signOut_leaves_queue_and_flag_witness:
  "isRefreshingToken (signOut two401s)
   \<and> failedRequestsQueue (signOut two401s) = [Some (get ''/a''), Some (get ''/b'')]
   \<and> sent (snd (refreshThenResume opts0 3541500 3541500 (err401 ''/a'') (Inr data1)
                  (signOut two401s)))
       = sent two401s @ [replay (Some (get ''/a'')) ''a2'', replay (Some (get ''/b'')) ''a2'']"
proof -
  have a: "isRefreshingToken two401s" by code_simp
  have b: "failedRequestsQueue two401s = [Some (get ''/a''), Some (get ''/b'')]" by code_simp
  have c: "\<not> (shouldRefreshToken opts0
             \<and> 3541500 + expires_in data1 * 1000 - 3541500 - refreshTokenTimeoutInMs opts0 \<le> 0)"
    by code_simp
  have d: "access_token data1 = ''a2''" by (simp add: data1_def)
  have k: "failedRequestsQueue (signOut two401s) = failedRequestsQueue two401s
     \<and> isRefreshingToken (signOut two401s) = isRefreshingToken two401s
     \<and> sent (snd (refreshThenResume opts0 3541500 3541500 (err401 ''/a'') (Inr data1)
                    (signOut two401s))) =
       sent two401s
       @ (if shouldRefreshToken opts0
             \<and> 3541500 + expires_in data1 * 1000 - 3541500 - refreshTokenTimeoutInMs opts0 \<le> 0
          then [refreshGrant opts0 (newOAuth 3541500 data1)] else [])
       @ map (\<lambda>c. replay c (access_token data1)) (failedRequestsQueue two401s)"
    using signOut_leaves_queue_and_flag
            [where s = two401s and opts = opts0 and now = 3541500 and now' = 3541500
               and err = "err401 ''/a''" and d = data1]
    by blast
  show ?thesis
    using k a b d unfolding if_not_P [OF c] by simp
qed

end
